theory Spec2Isabelle
  imports Complex_Main "HOL-Library.List_Lexorder" "HOL-Library.Product_Lexorder"
    "HOL-Library.Code_Target_Nat"
begin

section \<open>Strings and character classes\<close>

text \<open>
  A Python \<open>str\<close> is a sequence of Unicode code points. Folder names such as
  \<open>U+5929 U+5B89 U+95E8\<close> do not fit into 8-bit characters, so a string is a list of
  code points (natural numbers). ASCII literals are written \<open>cps ''2025-08''\<close>.
\<close>

type_synonym str = "nat list"

definition cps :: "string \<Rightarrow> str" where
  "cps s = map of_char s"

text \<open>
  \<open>str.isspace\<close>, \<open>str.strip()\<close> and the regular expression class \<open>\s\<close> of a
  \<open>str\<close> pattern all use the same table of white space code points.
\<close>

definition whitespace_table :: "nat list" where
  "whitespace_table =
    [0x9, 0xA, 0xB, 0xC, 0xD, 0x1C, 0x1D, 0x1E, 0x1F, 0x20, 0x85, 0xA0, 0x1680,
     0x2000, 0x2001, 0x2002, 0x2003, 0x2004, 0x2005, 0x2006, 0x2007, 0x2008, 0x2009,
     0x200A, 0x2028, 0x2029, 0x202F, 0x205F, 0x3000]"

definition isspace :: "nat \<Rightarrow> bool" where
  "isspace c = (c \<in> set whitespace_table)"

text \<open>
  The class \<open>\d\<close> of a \<open>str\<close> pattern and \<open>int()\<close> accept every Unicode decimal digit
  (category Nd). The digits of one script are ten consecutive code points with the values
  0 to 9; the table lists the code point of each zero (Unicode 14.0, the database of
  CPython 3.11).
\<close>

definition digit_zero_table :: "nat list" where
  "digit_zero_table =
    [0x30, 0x660, 0x6F0, 0x7C0, 0x966, 0x9E6, 0xA66, 0xAE6, 0xB66, 0xBE6, 0xC66, 0xCE6,
     0xD66, 0xDE6, 0xE50, 0xED0, 0xF20, 0x1040, 0x1090, 0x17E0, 0x1810, 0x1946, 0x19D0,
     0x1A80, 0x1A90, 0x1B50, 0x1BB0, 0x1C40, 0x1C50, 0xA620, 0xA8D0, 0xA900, 0xA9D0,
     0xA9F0, 0xAA50, 0xABF0, 0xFF10, 0x104A0, 0x10D30, 0x11066, 0x110F0, 0x11136,
     0x111D0, 0x112F0, 0x11450, 0x114D0, 0x11650, 0x116C0, 0x11730, 0x118E0, 0x11950,
     0x11C50, 0x11D50, 0x11DA0, 0x16A60, 0x16AC0, 0x16B50, 0x1D7CE, 0x1D7D8, 0x1D7E2,
     0x1D7EC, 0x1D7F6, 0x1E140, 0x1E2F0, 0x1E950, 0x1FBF0]"

definition to_decimal :: "nat \<Rightarrow> nat option" where
  "to_decimal c =
     map_option (\<lambda>z. c - z) (find (\<lambda>z. z \<le> c \<and> c < z + 10) digit_zero_table)"

definition isdecimal :: "nat \<Rightarrow> bool" where
  "isdecimal c = (to_decimal c \<noteq> None)"

text \<open>\<open>s.strip(chars)\<close> and \<open>s.strip()\<close>: drop the characters of a class from both ends.\<close>

definition strip_with :: "(nat \<Rightarrow> bool) \<Rightarrow> str \<Rightarrow> str" where
  "strip_with p s = rev (dropWhile p (rev (dropWhile p s)))"

definition strip :: "str \<Rightarrow> str" where
  "strip s = strip_with isspace s"

text \<open>
  \<open>int(s)\<close> on the text of a group matched by \<open>\d{..}\<close>. Any other text raises
  \<open>ValueError\<close> in the model (\<open>None\<close>); the groups \<open>y\<close>, \<open>m\<close> and \<open>d\<close> never hold one.
\<close>

definition py_int :: "str \<Rightarrow> nat option" where
  "py_int s =
     (if s \<noteq> [] \<and> list_all isdecimal s
      then Some (foldl (\<lambda>acc c. 10 * acc + the (to_decimal c)) 0 s)
      else None)"

section \<open>Calendar dates\<close>

record date =
  year :: nat
  month :: nat
  day :: nat

definition is_leap :: "nat \<Rightarrow> bool" where
  "is_leap y = (y mod 4 = 0 \<and> (y mod 100 \<noteq> 0 \<or> y mod 400 = 0))"

definition days_in_month :: "nat \<Rightarrow> nat \<Rightarrow> nat" where
  "days_in_month y m =
     (if m = 2 \<and> is_leap y then 29
      else [31, 28, 31, 30, 31, 30, 31, 31, 30, 31, 30, 31] ! (m - 1))"

text \<open>
  \<open>dt.date(year, month, day)\<close> raises \<open>ValueError\<close> (here \<open>None\<close>) unless
  \<open>1 \<le> year \<le> 9999\<close>, \<open>1 \<le> month \<le> 12\<close> and \<open>1 \<le> day \<le> days_in_month\<close>.
  The month is checked before the table of month lengths is read.
\<close>

definition mk_date :: "nat \<Rightarrow> nat \<Rightarrow> nat \<Rightarrow> date option" where
  "mk_date y m d =
     (if 1 \<le> y \<and> y \<le> 9999 \<and> 1 \<le> m \<and> m \<le> 12 \<and> 1 \<le> d \<and> d \<le> days_in_month y m
      then Some \<lparr>year = y, month = m, day = d\<rparr>
      else None)"

text \<open>
  \<open>_to_date(y, m, d)\<close>: the day is 1 when the group \<open>d\<close> did not take part in the match
  (\<open>None\<close>) or is empty; every \<open>ValueError\<close> becomes \<open>None\<close>.
\<close>

definition to_date :: "str \<Rightarrow> str \<Rightarrow> str option \<Rightarrow> date option" where
  "to_date y m d =
     (case py_int y of None \<Rightarrow> None
      | Some yr \<Rightarrow>
        (case py_int m of None \<Rightarrow> None
         | Some mo \<Rightarrow>
           (case (case d of None \<Rightarrow> Some 1
                  | Some ds \<Rightarrow> if ds = [] then Some 1 else py_int ds) of
              None \<Rightarrow> None
            | Some dy \<Rightarrow> mk_date yr mo dy)))"

section \<open>Regular expressions with backtracking\<close>

text \<open>
  The four patterns use literals, the classes \<open>.\<close>, \<open>\s\<close>, \<open>\d\<close> and \<open>[-/.]\<close>, the
  quantifiers \<open>*\<close>, \<open>+?\<close>, \<open>{4}\<close>, \<open>{1,2}\<close> on one class, named groups, an optional
  non-capturing group and \<open>$\<close>. Every pattern starts with \<open>^\<close>.
\<close>

datatype cls = Dot | Space | Digit | OneOf "nat list"

fun cls_ok :: "cls \<Rightarrow> nat \<Rightarrow> bool" where
  "cls_ok Dot c = (c \<noteq> 0xA)"
| "cls_ok Space c = isspace c"
| "cls_ok Digit c = isdecimal c"
| "cls_ok (OneOf cs) c = (c \<in> set cs)"

datatype gname = G_title | G_y | G_m | G_d

datatype rx =
    Ch nat
  | One cls
  | Star cls
  | PlusLazy cls
  | Rep cls nat nat
  | Group gname rx
  | Opt rx
  | Seq rx rx
  | Emp
  | Eol

record groupdict =
  gd_title :: "str option"
  gd_y :: "str option"
  gd_m :: "str option"
  gd_d :: "str option"

definition no_groups :: groupdict where
  "no_groups = \<lparr>gd_title = None, gd_y = None, gd_m = None, gd_d = None\<rparr>"

fun set_group :: "gname \<Rightarrow> str \<Rightarrow> groupdict \<Rightarrow> groupdict" where
  "set_group G_title w g = g\<lparr>gd_title := Some w\<rparr>"
| "set_group G_y w g = g\<lparr>gd_y := Some w\<rparr>"
| "set_group G_m w g = g\<lparr>gd_m := Some w\<rparr>"
| "set_group G_d w g = g\<lparr>gd_d := Some w\<rparr>"

text \<open>
  \<open>matches r s g\<close> lists, in the order in which a backtracking matcher tries them, every
  way in which \<open>r\<close> matches a prefix of \<open>s\<close>: the rest of the subject and the groups set so
  far. A greedy quantifier tries the longest repetition first, a lazy one the shortest; a
  greedy optional group is tried before it is skipped. \<open>$\<close> matches at the end of the
  subject and before a line break that ends it.
\<close>

fun matches :: "rx \<Rightarrow> str \<Rightarrow> groupdict \<Rightarrow> (str \<times> groupdict) list" where
  "matches (Ch c) s g = (case s of [] \<Rightarrow> [] | x # xs \<Rightarrow> if x = c then [(xs, g)] else [])"
| "matches (One k) s g =
     (case s of [] \<Rightarrow> [] | x # xs \<Rightarrow> if cls_ok k x then [(xs, g)] else [])"
| "matches (Star k) s g =
     map (\<lambda>n. (drop n s, g)) (rev [0 ..< Suc (length (takeWhile (cls_ok k) s))])"
| "matches (PlusLazy k) s g =
     map (\<lambda>n. (drop n s, g)) [1 ..< Suc (length (takeWhile (cls_ok k) s))]"
| "matches (Rep k lo hi) s g =
     map (\<lambda>n. (drop n s, g)) (rev [lo ..< Suc (min hi (length (takeWhile (cls_ok k) s)))])"
| "matches (Group n r) s g =
     map (\<lambda>(rest, g'). (rest, set_group n (take (length s - length rest) s) g'))
       (matches r s g)"
| "matches (Opt r) s g = matches r s g @ [(s, g)]"
| "matches (Seq a b) s g = concat (map (\<lambda>(rest, g'). matches b rest g') (matches a s g))"
| "matches Emp s g = [(s, g)]"
| "matches Eol s g = (if s = [] \<or> s = [0xA] then [(s, g)] else [])"

definition cat :: "rx list \<Rightarrow> rx" where
  "cat rs = foldr Seq rs Emp"

text \<open>\<open>pat.match(s)\<close>: the first way to match at the start of \<open>s\<close>, if there is one.\<close>

definition re_match :: "rx \<Rightarrow> str \<Rightarrow> (str \<times> groupdict) option" where
  "re_match pat s = (case matches pat s no_groups of [] \<Rightarrow> None | m # _ \<Rightarrow> Some m)"

text \<open>
  \<open>pat.sub("", s)\<close> for a pattern that starts with \<open>^\<close>: only a match at position 0 is
  replaced, and what follows it is kept.
\<close>

definition re_sub_empty :: "rx \<Rightarrow> str \<Rightarrow> str" where
  "re_sub_empty pat s = (case re_match pat s of None \<Rightarrow> s | Some (rest, g) \<Rightarrow> rest)"

section \<open>Folder names\<close>

definition sep_class :: cls where
  "sep_class = OneOf [0x2D, 0x2F, 0x2E]"

definition cn_year :: nat where "cn_year = 0x5E74"
definition cn_month :: nat where "cn_month = 0x6708"
definition cn_day :: nat where "cn_day = 0x65E5"

text \<open>
  The two patterns of a notation differ only in where the title stands; the part that
  matches the date is the same text in both and is written once here.
\<close>

definition cn_date :: "rx list" where
  "cn_date =
     [Group G_y (Rep Digit 4 4), Star Space, Ch cn_year, Star Space,
      Group G_m (Rep Digit 1 2), Star Space, Ch cn_month,
      Opt (cat [Star Space, Group G_d (Rep Digit 1 2), Star Space, Ch cn_day])]"

definition iso_date :: "rx list" where
  "iso_date =
     [Group G_y (Rep Digit 4 4), One sep_class, Group G_m (Rep Digit 1 2),
      Opt (cat [One sep_class, Group G_d (Rep Digit 1 2)])]"

definition cn_title_first :: rx where
  "cn_title_first = cat ([Group G_title (PlusLazy Dot), Star Space] @ cn_date @ [Eol])"

definition cn_date_first :: rx where
  "cn_date_first = cat (cn_date @ [Star Space, Group G_title (PlusLazy Dot), Eol])"

definition iso_title_first :: rx where
  "iso_title_first = cat ([Group G_title (PlusLazy Dot), Star Space] @ iso_date @ [Eol])"

definition iso_date_first :: rx where
  "iso_date_first = cat (iso_date @ [Star Space, Group G_title (PlusLazy Dot), Eol])"

definition cn_patterns :: "rx list" where
  "cn_patterns = [cn_title_first, cn_date_first]"

definition iso_patterns :: "rx list" where
  "iso_patterns = [iso_title_first, iso_date_first]"

text \<open>The characters of \<open>strip("-_ \<dots>, ")\<close>: hyphen, underscore, space, U+00B7, U+FF0C, comma.\<close>

definition title_trim :: "nat \<Rightarrow> bool" where
  "title_trim c = (c \<in> set [0x2D, 0x5F, 0x20, 0xB7, 0xFF0C, 0x2C])"

text \<open>The body of the loop of \<open>parse_title_date\<close> once \<open>pat\<close> has matched with groups \<open>g\<close>.\<close>

definition on_match :: "rx \<Rightarrow> str \<Rightarrow> groupdict \<Rightarrow> str \<times> date option" where
  "on_match pat name g =
     (let title = strip (case gd_title g of None \<Rightarrow> [] | Some t \<Rightarrow> t);
          date = to_date (the (gd_y g)) (the (gd_m g)) (gd_d g);
          title' = (if title = []
                    then (let t = strip_with title_trim (re_sub_empty pat name)
                          in if t = [] then name else t)
                    else title)
      in (title', date))"

fun try_patterns :: "rx list \<Rightarrow> str \<Rightarrow> str \<times> date option" where
  "try_patterns [] name = (name, None)"
| "try_patterns (pat # pats) name =
     (case re_match pat name of
        Some (rest, g) \<Rightarrow> on_match pat name g
      | None \<Rightarrow> try_patterns pats name)"

definition parse_title_date :: "str \<Rightarrow> str \<times> date option" where
  "parse_title_date folder_name = try_patterns (cn_patterns @ iso_patterns) (strip folder_name)"

section \<open>The directory tree\<close>

text \<open>
  A directory lists its entries in the order in which the operating system enumerates
  them (\<open>iterdir\<close>). The tree is a snapshot without symbolic links; paths are POSIX
  paths, separated by \<open>/\<close>.
\<close>

datatype node = File | Dir "(str \<times> node) list"

datatype error = NotADirectoryError

fun is_dir :: "node \<Rightarrow> bool" where
  "is_dir (Dir es) = True"
| "is_dir File = False"

fun is_file :: "node \<Rightarrow> bool" where
  "is_file File = True"
| "is_file (Dir es) = False"

fun iterdir :: "node \<Rightarrow> (str \<times> node) list" where
  "iterdir (Dir es) = es"
| "iterdir File = []"

definition ALLOWED_EXTS :: "str list" where
  "ALLOWED_EXTS =
     [cps ''.jpg'', cps ''.jpeg'', cps ''.png'', cps ''.webp'', cps ''.gif'', cps ''.bmp'']"

text \<open>\<open>s.rfind(c)\<close>: the index of the last occurrence of \<open>c\<close>, or \<open>-1\<close>.\<close>

definition rfind :: "nat \<Rightarrow> str \<Rightarrow> int" where
  "rfind c s =
     (if c \<in> set s then int (length s) - 1 - int (length (takeWhile (\<lambda>x. x \<noteq> c) (rev s)))
      else - 1)"

text \<open>\<open>PurePath.suffix\<close> of a path whose final component is \<open>name\<close>.\<close>

definition suffix :: "str \<Rightarrow> str" where
  "suffix name =
     (let i = rfind 0x2E name
      in if 0 < i \<and> i < int (length name) - 1 then drop (nat i) name else [])"

text \<open>
  \<open>str.lower()\<close>. The result is only compared with the ASCII strings of
  \<open>ALLOWED_EXTS\<close>, and no code point outside \<open>A\<close> to \<open>Z\<close> lower-cases to a letter
  that occurs in them, so the other code points are left as they are.
\<close>

definition lower :: "str \<Rightarrow> str" where
  "lower s = map (\<lambda>c. if 0x41 \<le> c \<and> c \<le> 0x5A then c + 32 else c) s"

definition allowed_image :: "str \<times> node \<Rightarrow> bool" where
  "allowed_image p = (is_file (snd p) \<and> lower (suffix (fst p)) \<in> set ALLOWED_EXTS)"

section \<open>Albums and categories\<close>

record Album =
  category :: str
  folder :: str
  title :: str
  date :: "date option"
  rel_dir :: str
  images :: "str list"

record Category =
  name :: str
  cat_rel_dir :: str
  albums :: "Album list"

definition cover_relfile :: "Album \<Rightarrow> str option" where
  "cover_relfile a =
     (case images a of [] \<Rightarrow> None | i # _ \<Rightarrow> Some (rel_dir a @ [0x2F] @ i))"

definition total_albums :: "Category \<Rightarrow> nat" where
  "total_albums c = length (albums c)"

definition total_images :: "Category \<Rightarrow> nat" where
  "total_images c = sum_list (map (\<lambda>a. length (images a)) (albums c))"

definition category_cover_relfile :: "Category \<Rightarrow> str option" where
  "category_cover_relfile c =
     (case filter (\<lambda>a. cover_relfile a \<noteq> None) (albums c) of
        [] \<Rightarrow> None
      | a # _ \<Rightarrow> cover_relfile a)"

section \<open>Scanning\<close>

text \<open>
  \<open>sorted([p for p in d.iterdir() if p.is_dir()])\<close>: paths of one directory compare by
  their final component, and \<open>sorted\<close> is stable.
\<close>

definition subdirs :: "node \<Rightarrow> (str \<times> node) list" where
  "subdirs d = sort_key fst (filter (\<lambda>p. is_dir (snd p)) (iterdir d))"

text \<open>\<open>s.replace("\\", "/")\<close>.\<close>

definition replace_backslash :: "str \<Rightarrow> str" where
  "replace_backslash s = map (\<lambda>c. if c = 0x5C then 0x2F else c) s"

text \<open>The key of \<open>albums.sort\<close>; a date is compared as (year, month, day).\<close>

definition album_key :: "Album \<Rightarrow> bool \<times> (nat \<times> nat \<times> nat) \<times> str" where
  "album_key a =
     (date a \<noteq> None,
      (case date a of None \<Rightarrow> (1, 1, 1) | Some d \<Rightarrow> (year d, month d, day d)),
      title a)"

text \<open>
  \<open>xs.sort(key=f, reverse=True)\<close> reverses the list, sorts it stably in ascending
  order and reverses the result, so equal keys keep their order.
\<close>

definition sort_reverse :: "('a \<Rightarrow> 'k::linorder) \<Rightarrow> 'a list \<Rightarrow> 'a list" where
  "sort_reverse f xs = rev (sort_key f (rev xs))"

text \<open>One turn of the inner loop: the album of a directory, unless it has no image.\<close>

definition scan_album :: "str \<Rightarrow> str \<times> node \<Rightarrow> Album option" where
  "scan_album cat_name album_dir =
     (let imgs = sort (map fst (filter allowed_image (iterdir (snd album_dir))))
      in if imgs = [] then None
         else (let (t, d) = parse_title_date (fst album_dir)
               in Some \<lparr>category = cat_name, folder = fst album_dir, title = t, date = d,
                        rel_dir = replace_backslash (cat_name @ [0x2F] @ fst album_dir),
                        images = imgs\<rparr>))"

text \<open>One turn of the outer loop: the category of a directory, unless it has no album.\<close>

definition scan_category :: "str \<times> node \<Rightarrow> Category option" where
  "scan_category cat_dir =
     (let albs = sort_reverse album_key
                   (List.map_filter (scan_album (fst cat_dir)) (subdirs (snd cat_dir)))
      in if albs = [] then None
         else Some \<lparr>name = fst cat_dir, cat_rel_dir = fst cat_dir, albums = albs\<rparr>)"

text \<open>
  \<open>_scan_once()\<close>; \<open>images_root\<close> is what \<open>IMAGES_ROOT\<close> denotes, \<open>None\<close> when the path does
  not exist. \<open>iterdir\<close> on a root that is a file raises.
\<close>

definition scan_once :: "node option \<Rightarrow> error + Category list" where
  "scan_once images_root =
     (case images_root of
        None \<Rightarrow> Inr []
      | Some File \<Rightarrow> Inl NotADirectoryError
      | Some (Dir es) \<Rightarrow> Inr (sort_key name (List.map_filter scan_category (subdirs (Dir es)))))"

section \<open>The cache\<close>

text \<open>
  A list is an object with an identity: \<open>_scan_once\<close> returns a new list each time,
  and \<open>get_catalog\<close> returns a reference to the stored one. The store maps references
  to lists; \<open>next_ref\<close> is the first unused reference. Times are seconds.
\<close>

record cache =
  cache_at :: real
  cache_data :: nat
  store :: "nat \<Rightarrow> Category list"
  next_ref :: nat

definition CACHE_TTL_SECONDS :: real where
  "CACHE_TTL_SECONDS = 5"

definition initial_cache :: cache where
  "initial_cache = \<lparr>cache_at = 0, cache_data = 0, store = (\<lambda>r. []), next_ref = 1\<rparr>"

definition get_catalog :: "node option \<Rightarrow> real \<Rightarrow> cache \<Rightarrow> error + (nat \<times> cache)" where
  "get_catalog images_root now st =
     (if now - cache_at st > CACHE_TTL_SECONDS \<or> store st (cache_data st) = []
      then (case scan_once images_root of
              Inl e \<Rightarrow> Inl e
            | Inr cats \<Rightarrow>
                (let r = next_ref st
                 in Inr (r, st\<lparr>store := (store st)(r := cats), next_ref := Suc r,
                                cache_data := r, cache_at := now\<rparr>)))
      else Inr (cache_data st, st))"

section \<open>The date filter\<close>

function str_of_nat :: "nat \<Rightarrow> str" where
  "str_of_nat n = (if n < 10 then [0x30 + n] else str_of_nat (n div 10) @ [0x30 + n mod 10])"
  by pat_completeness auto
termination
  by (relation "measure id") auto

declare str_of_nat.simps [simp del]

definition date_unknown :: str where
  "date_unknown = [0x672A, 0x6807, 0x6CE8, 0x65E5, 0x671F]"

definition jinja_cn_date :: "date option \<Rightarrow> str" where
  "jinja_cn_date d =
     (case d of
        None \<Rightarrow> date_unknown
      | Some x \<Rightarrow>
          str_of_nat (year x) @ [0x20, cn_year, 0x20] @ str_of_nat (month x) @ [0x20, cn_month]
          @ (if day x \<noteq> 0 then [0x20] @ str_of_nat (day x) @ [0x20, cn_day] else []))"

section \<open>The pages\<close>

text \<open>
  What a route answers: \<open>abort(404)\<close>, a rendered page with the values handed to the
  template, or a file sent from the images directory (its path below \<open>/\<close>).
\<close>

datatype response =
    NotFound
  | IndexPage "Category list"
  | CategoryPage Category
  | AlbumPage Category Album
  | SentFile "str list"

definition index :: "node option \<Rightarrow> real \<Rightarrow> cache \<Rightarrow> error + (response \<times> cache)" where
  "index images_root now st =
     (case get_catalog images_root now st of
        Inl e \<Rightarrow> Inl e
      | Inr (r, st') \<Rightarrow> Inr (IndexPage (store st' r), st'))"

definition view_category ::
  "str \<Rightarrow> node option \<Rightarrow> real \<Rightarrow> cache \<Rightarrow> error + (response \<times> cache)" where
  "view_category cat_name images_root now st =
     (case get_catalog images_root now st of
        Inl e \<Rightarrow> Inl e
      | Inr (r, st') \<Rightarrow>
          (case find (\<lambda>c. name c = cat_name) (store st' r) of
             None \<Rightarrow> Inr (NotFound, st')
           | Some c \<Rightarrow> Inr (CategoryPage c, st')))"

definition view_album ::
  "str \<Rightarrow> str \<Rightarrow> node option \<Rightarrow> real \<Rightarrow> cache \<Rightarrow> error + (response \<times> cache)" where
  "view_album cat_name album_name images_root now st =
     (case get_catalog images_root now st of
        Inl e \<Rightarrow> Inl e
      | Inr (r, st') \<Rightarrow>
          (case find (\<lambda>c. name c = cat_name) (store st' r) of
             None \<Rightarrow> Inr (NotFound, st')
           | Some c \<Rightarrow>
               (case find (\<lambda>a. folder a = album_name) (albums c) of
                  None \<Rightarrow> Inr (NotFound, st')
                | Some a \<Rightarrow> Inr (AlbumPage c a, st'))))"

section \<open>Example data\<close>

definition tiananmen :: str where
  "tiananmen = [0x5929, 0x5B89, 0x95E8]"

definition tiananmen_folder :: str where
  "tiananmen_folder =
     tiananmen @ cps '' 2025 '' @ [cn_year] @ cps '' 8 '' @ [cn_month] @ cps '' 24 '' @ [cn_day]"

definition example_tree :: node where
  "example_tree = Dir
     [(cps ''stray.jpg'', File),
      (cps ''Travel'', Dir
         [(cps ''Z'', Dir [(cps ''z.gif'', File)]),
          (cps ''2025-08 Hiking'', Dir [(cps ''h.jpg'', File)]),
          (cps ''empty'', Dir [(cps ''readme.txt'', File)]),
          (tiananmen_folder, Dir
             [(cps ''b.jpg'', File), (cps ''notes.txt'', File), (cps ''a.PNG'', File),
              (cps ''sub.jpg'', Dir [])])]),
      (cps ''Docs'', Dir [(cps ''texts'', Dir [(cps ''a.txt'', File)])])]"

definition example_albums :: "Album list" where
  "example_albums =
     [\<lparr>category = cps ''Travel'', folder = tiananmen_folder, title = tiananmen,
       date = Some \<lparr>year = 2025, month = 8, day = 24\<rparr>,
       rel_dir = cps ''Travel/'' @ tiananmen_folder, images = [cps ''a.PNG'', cps ''b.jpg'']\<rparr>,
      \<lparr>category = cps ''Travel'', folder = cps ''2025-08 Hiking'', title = cps ''Hiking'',
       date = Some \<lparr>year = 2025, month = 8, day = 1\<rparr>,
       rel_dir = cps ''Travel/2025-08 Hiking'', images = [cps ''h.jpg'']\<rparr>,
      \<lparr>category = cps ''Travel'', folder = cps ''Z'', title = cps ''Z'', date = None,
       rel_dir = cps ''Travel/Z'', images = [cps ''z.gif'']\<rparr>]"

definition example_catalog :: "Category list" where
  "example_catalog =
     [\<lparr>name = cps ''Travel'', cat_rel_dir = cps ''Travel'', albums = example_albums\<rparr>]"

definition backslash_folder :: str where
  "backslash_folder = [0x61, 0x5C, 0x62]"

definition backslash_tree :: node where
  "backslash_tree = Dir [(cps ''c'', Dir [(backslash_folder, Dir [(cps ''x.jpg'', File)])])]"

definition date_key :: "date \<Rightarrow> nat \<times> nat \<times> nat" where
  "date_key d = (year d, month d, day d)"

definition empty_state_first :: cache where
  "empty_state_first = \<lparr>cache_at = 100, cache_data = 1, store = (\<lambda>r. []), next_ref = 2\<rparr>"

definition empty_state_second :: cache where
  "empty_state_second = \<lparr>cache_at = 101, cache_data = 2, store = (\<lambda>r. []), next_ref = 3\<rparr>"

definition example_cache :: cache where
  "example_cache =
     \<lparr>cache_at = 100, cache_data = 1, store = (\<lambda>r. [])(1 := example_catalog), next_ref = 2\<rparr>"

section \<open>Names written in a date notation\<close>

text \<open>
  The text of a date in one of the two notations of the specification, with the numbers
  of digits that the patterns allow: the long form is a year of four digits, the year
  sign, a month of one or two digits, the month sign and optionally a day of one or two
  digits and the day sign, with optional white space in between; the numeric form is
  year, month and optionally day joined by one of \<open>-\<close>, \<open>/\<close> and \<open>.\<close>.
\<close>

datatype date_text =
    Long_form str str str str str "(str \<times> str \<times> str) option"
  | Numeric str nat str "(nat \<times> str) option"

fun text_of :: "date_text \<Rightarrow> str" where
  "text_of (Long_form y w1 w2 m w3 dp) =
     y @ w1 @ [cn_year] @ w2 @ m @ w3 @ [cn_month] @
     (case dp of None \<Rightarrow> [] | Some (w4, d, w5) \<Rightarrow> w4 @ d @ w5 @ [cn_day])"
| "text_of (Numeric y c1 m dp) =
     y @ [c1] @ m @ (case dp of None \<Rightarrow> [] | Some (c2, d) \<Rightarrow> [c2] @ d)"

fun year_digits :: "date_text \<Rightarrow> str" where
  "year_digits (Long_form y w1 w2 m w3 dp) = y"
| "year_digits (Numeric y c1 m dp) = y"

fun month_digits :: "date_text \<Rightarrow> str" where
  "month_digits (Long_form y w1 w2 m w3 dp) = m"
| "month_digits (Numeric y c1 m dp) = m"

fun day_digits :: "date_text \<Rightarrow> str option" where
  "day_digits (Long_form y w1 w2 m w3 dp) = map_option (\<lambda>(w4, d, w5). d) dp"
| "day_digits (Numeric y c1 m dp) = map_option (\<lambda>(c2, d). d) dp"

fun is_long :: "date_text \<Rightarrow> bool" where
  "is_long (Long_form y w1 w2 m w3 dp) = True"
| "is_long (Numeric y c1 m dp) = False"

definition digits :: "nat \<Rightarrow> nat \<Rightarrow> str \<Rightarrow> bool" where
  "digits lo hi s = (list_all isdecimal s \<and> lo \<le> length s \<and> length s \<le> hi)"

definition spaces :: "str \<Rightarrow> bool" where
  "spaces w = list_all isspace w"

definition is_sep :: "nat \<Rightarrow> bool" where
  "is_sep c = (c \<in> set [0x2D, 0x2F, 0x2E])"

fun well_formed :: "date_text \<Rightarrow> bool" where
  "well_formed (Long_form y w1 w2 m w3 dp) =
     (digits 4 4 y \<and> spaces w1 \<and> spaces w2 \<and> digits 1 2 m \<and> spaces w3 \<and>
      (case dp of None \<Rightarrow> True | Some (w4, d, w5) \<Rightarrow> spaces w4 \<and> digits 1 2 d \<and> spaces w5))"
| "well_formed (Numeric y c1 m dp) =
     (digits 4 4 y \<and> is_sep c1 \<and> digits 1 2 m \<and>
      (case dp of None \<Rightarrow> True | Some (c2, d) \<Rightarrow> is_sep c2 \<and> digits 1 2 d))"

text \<open>The groups that a match of the date part sets.\<close>

definition with_groups :: "date_text \<Rightarrow> groupdict \<Rightarrow> groupdict" where
  "with_groups dt g =
     (case day_digits dt of
        None \<Rightarrow> g\<lparr>gd_y := Some (year_digits dt), gd_m := Some (month_digits dt)\<rparr>
      | Some d \<Rightarrow> g\<lparr>gd_y := Some (year_digits dt), gd_m := Some (month_digits dt),
                      gd_d := Some d\<rparr>)"


text \<open>The four patterns by notation (long form or numeric) and layout.\<close>

definition date_rx :: "bool \<Rightarrow> rx list" where
  "date_rx long = (if long then cn_date else iso_date)"

definition title_first :: "bool \<Rightarrow> rx" where
  "title_first long = cat ([Group G_title (PlusLazy Dot), Star Space] @ date_rx long @ [Eol])"

definition date_first :: "bool \<Rightarrow> rx" where
  "date_first long = cat (date_rx long @ [Star Space, Group G_title (PlusLazy Dot), Eol])"


text \<open>
  A folder name in which the first pattern finds month 13, while the last pattern would
  find the valid date at its start.
\<close>

definition invalid_month_folder :: str where
  "invalid_month_folder = cps ''2025-01-01 x 2025 '' @ [cn_year] @ cps '' 13 '' @ [cn_month]"





section \<open>Serving a file\<close>

text \<open>
  \<open>media\<close> works on paths of the whole file system: a tree below \<open>/\<close> without symbolic
  links, in which a path is the list of its components. \<open>BASE_DIR\<close> is the resolved
  directory of the application, so it holds no \<open>..\<close>. Names are within the limits of
  the system (at most \<open>NAME_MAX\<close> bytes), and every directory may be searched.
\<close>

fun lookup :: "node \<Rightarrow> str list \<Rightarrow> node option" where
  "lookup n [] = Some n"
| "lookup File (c # cs) = None"
| "lookup (Dir es) (c # cs) = (case map_of es c of None \<Rightarrow> None | Some n \<Rightarrow> lookup n cs)"

text \<open>\<open>Path.exists()\<close> and \<open>os.path.isfile\<close>.\<close>

definition exists :: "node \<Rightarrow> str list \<Rightarrow> bool" where
  "exists fs p = (lookup fs p \<noteq> None)"

definition isfile :: "node \<Rightarrow> str list \<Rightarrow> bool" where
  "isfile fs p = (lookup fs p = Some File)"

definition IMAGES_ROOT :: "str list \<Rightarrow> str list" where
  "IMAGES_ROOT base_dir = base_dir @ [cps ''images'']"

text \<open>\<open>s.split(c)\<close>.\<close>

fun split_on :: "nat \<Rightarrow> str \<Rightarrow> str list" where
  "split_on c [] = [[]]"
| "split_on c (x # xs) =
     (if x = c then [] # split_on c xs
      else (case split_on c xs of [] \<Rightarrow> [[x]] | w # ws \<Rightarrow> (x # w) # ws))"

text \<open>
  \<open>directory / s\<close> for a POSIX path: the components of \<open>s\<close> are what stands between
  its slashes, without the empty ones and without \<open>.\<close>; they follow those of the
  directory, or replace them when \<open>s\<close> starts with a slash.
\<close>

definition joinpath :: "str list \<Rightarrow> str \<Rightarrow> str list" where
  "joinpath directory s =
     (let parts = filter (\<lambda>c. c \<noteq> [] \<and> c \<noteq> cps ''.'') (split_on 0x2F s)
      in if s \<noteq> [] \<and> hd s = 0x2F then parts else directory @ parts)"

text \<open>
  \<open>Path.resolve()\<close> of an absolute path where there are no symbolic links: every \<open>..\<close>
  removes the component before it, and \<open>/..\<close> is \<open>/\<close>.
\<close>

definition resolve :: "str list \<Rightarrow> str list" where
  "resolve p = foldl (\<lambda>acc c. if c = cps ''..'' then butlast acc else acc @ [c]) [] p"

text \<open>\<open>PurePath.name\<close>: the last component, empty for \<open>/\<close>.\<close>

definition path_name :: "str list \<Rightarrow> str" where
  "path_name p = (if p = [] then [] else last p)"

text \<open>\<open>str(p)\<close> of a relative path: its components joined by slashes, \<open>.\<close> if it has none.\<close>

fun join_slash :: "str list \<Rightarrow> str" where
  "join_slash [] = []"
| "join_slash [c] = c"
| "join_slash (c # d # cs) = c @ [0x2F] @ join_slash (d # cs)"

definition str_of_path :: "str list \<Rightarrow> str" where
  "str_of_path cs = (if cs = [] then cps ''.'' else join_slash cs)"

text \<open>
  \<open>posixpath.normpath\<close> of a path that does not start with a slash, as the list of the
  components of the result: empty components and \<open>.\<close> are dropped, and \<open>..\<close> removes the
  component before it unless there is none or it is \<open>..\<close> itself.
\<close>

definition normpath :: "str \<Rightarrow> str list" where
  "normpath s =
     foldl (\<lambda>acc c. if c = [] \<or> c = cps ''.'' then acc
                     else if c = cps ''..'' \<and> acc \<noteq> [] \<and> last acc \<noteq> cps ''..'' then butlast acc
                     else acc @ [c])
       [] (split_on 0x2F s)"

text \<open>
  \<open>safe_join(directory, filename)\<close> of Werkzeug: the file name is normalised; the result
  is \<open>None\<close> when the normalised name is absolute, is \<open>..\<close> or starts with \<open>../\<close>, and
  otherwise the directory followed by the normalised name.
\<close>

definition safe_join :: "str list \<Rightarrow> str \<Rightarrow> str list option" where
  "safe_join directory filename =
     (let cs = normpath filename
      in if (filename \<noteq> [] \<and> hd filename = 0x2F) \<or> (cs \<noteq> [] \<and> hd cs = cps ''..'') then None
         else Some (directory @ cs))"

text \<open>
  \<open>send_from_directory(directory, path)\<close> of Flask: not found unless the safely joined
  path is a regular file, which is then sent.
\<close>

definition send_from_directory :: "node \<Rightarrow> str list \<Rightarrow> str \<Rightarrow> response" where
  "send_from_directory fs directory path =
     (case safe_join directory path of
        None \<Rightarrow> NotFound
      | Some q \<Rightarrow> if isfile fs q then SentFile q else NotFound)"

text \<open>
  \<open>media(filename)\<close>. \<open>resolve\<close> is called outside the \<open>try\<close> block and raises
  \<open>ValueError\<close> for a name that holds a NUL character. The two operands of \<open>or\<close> are
  tested one after the other.
\<close>

datatype media_error = ValueError

definition media :: "node \<Rightarrow> str list \<Rightarrow> str \<Rightarrow> media_error + response" where
  "media fs base_dir filename =
     (if 0 \<in> set filename then Inl ValueError
      else
        (let p = resolve (joinpath (IMAGES_ROOT base_dir) filename)
         in if take (length (IMAGES_ROOT base_dir)) p \<noteq> IMAGES_ROOT base_dir then Inr NotFound
            else if lower (suffix (path_name p)) \<notin> set ALLOWED_EXTS then Inr NotFound
            else if \<not> exists fs p then Inr NotFound
            else Inr (send_from_directory fs (IMAGES_ROOT base_dir)
                   (replace_backslash
                      (str_of_path (drop (length (IMAGES_ROOT base_dir)) p))))))"

text \<open>
  A file system in which the images directory holds a directory named \<open>a\b.jpg\<close> and
  a directory \<open>a\<close> with the file \<open>b.jpg\<close>; beside the images directory lies the file
  \<open>secret.jpg\<close>.
\<close>

definition media_tree :: node where
  "media_tree = Dir
     [(cps ''srv'', Dir
        [(cps ''secret.jpg'', File),
         (cps ''images'', Dir
            [([0x61, 0x5C, 0x62, 0x2E, 0x6A, 0x70, 0x67], Dir []),
             (cps ''a'', Dir [(cps ''b.jpg'', File)])])])]"

section \<open>Properties of the scan\<close>

lemma set_map_filter: "set (List.map_filter f xs) = {y. \<exists>x\<in>set xs. f x = Some y}"
  by (induction xs) (auto simp: List.map_filter_simps split: option.splits)

lemma set_sort_reverse: "set (sort_reverse f xs) = set xs"
  by (simp add: sort_reverse_def)

lemma sort_reverse_sorted: "sorted_wrt (\<lambda>a b. f b \<le> f a) (sort_reverse f xs)"
proof -
  have "sorted (map f (sort_key f (rev xs)))" by simp
  then have "sorted_wrt (\<lambda>a b. f a \<le> f b) (sort_key f (rev xs))"
    by (simp add: sorted_map)
  then show ?thesis
    by (simp add: sort_reverse_def sorted_wrt_rev)
qed

lemma scan_album_Some:
  assumes "scan_album cn p = Some a"
  shows "images a = sort (map fst (filter allowed_image (iterdir (snd p))))"
    and "images a \<noteq> []"
    and "category a = cn" and "folder a = fst p"
    and "rel_dir a = replace_backslash (cn @ [0x2F] @ fst p)"
    and "(title a, date a) = parse_title_date (fst p)"
  using assms
  by (auto simp: scan_album_def Let_def split: if_splits prod.splits)

lemma scan_category_Some:
  assumes "scan_category p = Some c"
  shows "name c = fst p" and "cat_rel_dir c = fst p"
    and "albums c = sort_reverse album_key (List.map_filter (scan_album (fst p)) (subdirs (snd p)))"
    and "albums c \<noteq> []"
  using assms
  by (auto simp: scan_category_def Let_def split: if_splits)

lemma scan_once_member:
  assumes "scan_once r = Inr cats" and "c \<in> set cats"
  shows "\<exists>p. scan_category p = Some c"
  using assms
  by (fastforce simp: scan_once_def set_map_filter split: option.splits node.splits)

lemma category_album_member:
  assumes "scan_category p = Some c" and "a \<in> set (albums c)"
  shows "\<exists>q. scan_album (name c) q = Some a"
  using assms scan_category_Some[OF assms(1)]
  by (auto simp: set_sort_reverse set_map_filter)

lemma example_scan: "scan_once (Some example_tree) = Inr example_catalog"
  by code_simp

text \<open>
  C6: in a scan result every category has at least one album, and every album has at
  least one image; the images are in ascending order and each has an allowed extension.
  A directory without an allowed image file yields no album, and a directory none of
  whose subdirectories yields an album yields no category.
\<close>

theorem scan_nonempty_sorted:
  assumes "scan_once r = Inr cats" and "c \<in> set cats"
  shows "albums c \<noteq> [] \<and>
         (\<forall>a\<in>set (albums c). images a \<noteq> [] \<and> sorted (images a) \<and>
            (\<forall>i\<in>set (images a). lower (suffix i) \<in> set ALLOWED_EXTS)) \<and>
         (filter allowed_image (iterdir d) = [] \<longrightarrow> scan_album cn (an, d) = None) \<and>
         (List.map_filter (scan_album cn) (subdirs d) = [] \<longrightarrow> scan_category (cn, d) = None)"
proof -
  obtain p where p: "scan_category p = Some c"
    using scan_once_member[OF assms] by blast
  have "images a \<noteq> [] \<and> sorted (images a) \<and>
        (\<forall>i\<in>set (images a). lower (suffix i) \<in> set ALLOWED_EXTS)"
    if mem: "a \<in> set (albums c)" for a
  proof -
    obtain q where q: "scan_album (name c) q = Some a"
      using category_album_member[OF p mem] by blast
    show ?thesis
      using scan_album_Some(1,2)[OF q] by (auto simp: allowed_image_def)
  qed
  moreover have "filter allowed_image (iterdir d) = [] \<longrightarrow> scan_album cn (an, d) = None"
    by (simp add: scan_album_def)
  moreover have "List.map_filter (scan_album cn) (subdirs d) = [] \<longrightarrow>
                 scan_category (cn, d) = None"
    by (simp add: scan_category_def sort_reverse_def)
  ultimately show ?thesis using scan_category_Some(4)[OF p] by blast
qed

theorem scan_nonempty_sorted_witness:
  "scan_once (Some example_tree) = Inr example_catalog \<and>
   hd example_catalog \<in> set example_catalog \<and>
   albums (hd example_catalog) \<noteq> [] \<and>
   images (hd (albums (hd example_catalog))) \<noteq> [] \<and>
   sorted (images (hd (albums (hd example_catalog)))) \<and>
   filter allowed_image (iterdir (Dir [(cps ''readme.txt'', File)])) = [] \<and>
   scan_album (cps ''Travel'') (cps ''empty'', Dir [(cps ''readme.txt'', File)]) = None \<and>
   List.map_filter (scan_album (cps ''Travel'')) (subdirs (Dir [(cps ''readme.txt'', File)])) = [] \<and>
   scan_category (cps ''Travel'', Dir [(cps ''readme.txt'', File)]) = None"
proof -
  have m: "hd example_catalog \<in> set example_catalog"
    by (simp add: example_catalog_def)
  have f: "filter allowed_image (iterdir (Dir [(cps ''readme.txt'', File)])) = []"
    by code_simp
  have g: "List.map_filter (scan_album (cps ''Travel'')) (subdirs (Dir [(cps ''readme.txt'', File)])) = []"
    by code_simp
  have a: "hd (albums (hd example_catalog)) \<in> set (albums (hd example_catalog))"
    by (simp add: example_catalog_def example_albums_def)
  show ?thesis
    using scan_nonempty_sorted[OF example_scan m, of "Dir [(cps ''readme.txt'', File)]"
        "cps ''Travel''" "cps ''empty''"] m f g a example_scan
    by blast
qed

lemma replace_backslash_id: "0x5C \<notin> set s \<Longrightarrow> replace_backslash s = s"
  by (induction s) (auto simp: replace_backslash_def)

text \<open>
  C10: the relative path of an album is its path below the images directory: its
  category, a slash and its folder name. The scan replaces every backslash of that path
  by a slash, which on a system whose separator is the slash rewrites a folder name that
  holds a backslash: the album in the folder \<open>a\b\<close> of the category \<open>c\<close> is given the
  relative path \<open>c/a/b\<close>, which is not category, slash, folder and names no directory
  of the tree.
\<close>

theorem backslash_folder_rel_dir:
  "scan_once (Some backslash_tree) =
     Inr [\<lparr>name = cps ''c'', cat_rel_dir = cps ''c'',
           albums = [\<lparr>category = cps ''c'', folder = backslash_folder,
                      title = backslash_folder, date = None, rel_dir = cps ''c/a/b'',
                      images = [cps ''x.jpg'']\<rparr>]\<rparr>] \<and>
   cps ''c/a/b'' \<noteq> cps ''c'' @ [0x2F] @ backslash_folder"
  by code_simp

text \<open>
  What the scan computes for the paths: the relative path of an album is category, slash,
  folder with every backslash replaced by a slash. The category of an album is the name
  of its category, whose relative path is that name, and the cover of an album is its
  relative path, a slash and its first image.
\<close>

lemma scan_paths:
  assumes "scan_once r = Inr cats" and "c \<in> set cats" and "a \<in> set (albums c)"
  shows "rel_dir a = replace_backslash (category a @ [0x2F] @ folder a) \<and>
         (0x5C \<notin> set (category a) \<and> 0x5C \<notin> set (folder a) \<longrightarrow>
            rel_dir a = category a @ [0x2F] @ folder a) \<and>
         category a = name c \<and> cat_rel_dir c = name c \<and>
         cover_relfile a = Some (rel_dir a @ [0x2F] @ hd (images a))"
proof -
  obtain p where p: "scan_category p = Some c"
    using scan_once_member[OF assms(1,2)] by blast
  obtain q where q: "scan_album (name c) q = Some a"
    using category_album_member[OF p assms(3)] by blast
  note A = scan_album_Some[OF q]
  have 1: "rel_dir a = replace_backslash (category a @ [0x2F] @ folder a)"
    using A(3,4,5) by simp
  have 2: "rel_dir a = category a @ [0x2F] @ folder a"
    if "0x5C \<notin> set (category a) \<and> 0x5C \<notin> set (folder a)"
    unfolding 1 using that by (intro replace_backslash_id) simp
  have 3: "cover_relfile a = Some (rel_dir a @ [0x2F] @ hd (images a))"
    using A(2) by (cases "images a") (simp_all add: cover_relfile_def)
  show ?thesis
    using 1 2 3 A(3) scan_category_Some(1,2)[OF p] by simp
qed

lemma scan_paths_example:
  "scan_once (Some example_tree) = Inr example_catalog \<and>
   hd example_catalog \<in> set example_catalog \<and>
   albums (hd example_catalog) ! 1 \<in> set (albums (hd example_catalog)) \<and>
   0x5C \<notin> set (category (albums (hd example_catalog) ! 1)) \<and>
   0x5C \<notin> set (folder (albums (hd example_catalog) ! 1)) \<and>
   rel_dir (albums (hd example_catalog) ! 1) = cps ''Travel/2025-08 Hiking'' \<and>
   cover_relfile (albums (hd example_catalog) ! 1) = Some (cps ''Travel/2025-08 Hiking/h.jpg'')"
proof -
  have m: "hd example_catalog \<in> set example_catalog"
    by (simp add: example_catalog_def)
  have a: "albums (hd example_catalog) ! 1 \<in> set (albums (hd example_catalog))"
    by (simp add: example_catalog_def example_albums_def)
  have b: "0x5C \<notin> set (category (albums (hd example_catalog) ! 1)) \<and>
           0x5C \<notin> set (folder (albums (hd example_catalog) ! 1))"
    by code_simp
  have e: "category (albums (hd example_catalog) ! 1) @ [0x2F] @
             folder (albums (hd example_catalog) ! 1) = cps ''Travel/2025-08 Hiking''"
    by code_simp
  have h: "cps ''Travel/2025-08 Hiking'' @ [0x2F] @ hd (images (albums (hd example_catalog) ! 1))
           = cps ''Travel/2025-08 Hiking/h.jpg''"
    by code_simp
  have r: "rel_dir (albums (hd example_catalog) ! 1) =
             category (albums (hd example_catalog) ! 1) @ [0x2F] @
             folder (albums (hd example_catalog) ! 1)"
    using scan_paths[OF example_scan m a] b by blast
  have c: "cover_relfile (albums (hd example_catalog) ! 1) =
             Some (rel_dir (albums (hd example_catalog) ! 1) @ [0x2F] @
                   hd (images (albums (hd example_catalog) ! 1)))"
    using scan_paths[OF example_scan m a] by blast
  have r': "rel_dir (albums (hd example_catalog) ! 1) = cps ''Travel/2025-08 Hiking''"
    using r e by (rule trans)
  have c': "cover_relfile (albums (hd example_catalog) ! 1) =
              Some (cps ''Travel/2025-08 Hiking/h.jpg'')"
    using c h unfolding r' by simp
  show ?thesis
    using example_scan m a b r' c' by blast
qed

text \<open>
  C5: the albums of a category are in descending order of the key (has a date, date,
  title). An album with a date never comes after one without; of two albums with a date
  the later date comes first, and for equal dates the greater title; of two albums
  without a date the greater title comes first.
\<close>

theorem albums_descending:
  assumes "scan_once r = Inr cats" and "c \<in> set cats"
    and "i < j" and "j < length (albums c)"
  shows "album_key (albums c ! j) \<le> album_key (albums c ! i) \<and>
         (date (albums c ! j) \<noteq> None \<longrightarrow> date (albums c ! i) \<noteq> None) \<and>
         (\<forall>x y. date (albums c ! i) = Some x \<and> date (albums c ! j) = Some y \<longrightarrow>
            date_key y \<le> date_key x \<and>
            (date_key y = date_key x \<longrightarrow> title (albums c ! j) \<le> title (albums c ! i))) \<and>
         (date (albums c ! i) = None \<and> date (albums c ! j) = None \<longrightarrow>
            title (albums c ! j) \<le> title (albums c ! i))"
proof -
  obtain p where p: "scan_category p = Some c"
    using scan_once_member[OF assms(1,2)] by blast
  have "sorted_wrt (\<lambda>a b. album_key b \<le> album_key a) (albums c)"
    unfolding scan_category_Some(3)[OF p] by (rule sort_reverse_sorted)
  then have k: "album_key (albums c ! j) \<le> album_key (albums c ! i)"
    using assms(3,4) by (simp add: sorted_wrt_iff_nth_less)
  show ?thesis
    using k by (auto simp: album_key_def date_key_def split: option.splits)
qed

theorem albums_descending_witness:
  "scan_once (Some example_tree) = Inr example_catalog \<and>
   hd example_catalog \<in> set example_catalog \<and>
   (1::nat) < 2 \<and> 2 < length (albums (hd example_catalog)) \<and>
   album_key (albums (hd example_catalog) ! 2) \<le> album_key (albums (hd example_catalog) ! 1) \<and>
   map date (albums (hd example_catalog)) =
     [Some \<lparr>year = 2025, month = 8, day = 24\<rparr>, Some \<lparr>year = 2025, month = 8, day = 1\<rparr>, None] \<and>
   map title (albums (hd example_catalog)) = [tiananmen, cps ''Hiking'', cps ''Z'']"
proof -
  have m: "hd example_catalog \<in> set example_catalog"
    by (simp add: example_catalog_def)
  have l: "2 < length (albums (hd example_catalog))"
    by (simp add: example_catalog_def example_albums_def)
  have i: "(1::nat) < 2" by simp
  have k: "album_key (albums (hd example_catalog) ! 2) \<le> album_key (albums (hd example_catalog) ! 1)"
    using albums_descending[OF example_scan m i l] by blast
  have d: "map date (albums (hd example_catalog)) =
     [Some \<lparr>year = 2025, month = 8, day = 24\<rparr>, Some \<lparr>year = 2025, month = 8, day = 1\<rparr>, None]"
    by (simp add: example_catalog_def example_albums_def)
  have t: "map title (albums (hd example_catalog)) = [tiananmen, cps ''Hiking'', cps ''Z'']"
    by (simp add: example_catalog_def example_albums_def)
  show ?thesis using example_scan m i l k d t by blast
qed

section \<open>Properties of the cache\<close>

text \<open>
  C9, as stated: when the images directory does not exist, every query sees the empty
  catalog. It fails for a query answered from the cache: the catalog scanned at time 100
  is still served at time 103, when the directory is gone.
\<close>

theorem missing_root_cached_counterexample:
  "get_catalog (Some example_tree) 100 initial_cache = Inr (1, example_cache) \<and>
   scan_once None = Inr [] \<and>
   index None 103 example_cache = Inr (IndexPage example_catalog, example_cache) \<and>
   example_catalog \<noteq> []"
proof -
  have a: "get_catalog (Some example_tree) 100 initial_cache = Inr (1, example_cache)"
    by (simp add: get_catalog_def example_scan initial_cache_def example_cache_def
        CACHE_TTL_SECONDS_def Let_def)
  have b: "scan_once None = Inr []"
    by (simp add: scan_once_def)
  have c: "example_catalog \<noteq> []"
    by (simp add: example_catalog_def)
  have d: "get_catalog None 103 example_cache = Inr (1, example_cache)"
    using c by (simp add: get_catalog_def example_cache_def CACHE_TTL_SECONDS_def)
  have e: "index None 103 example_cache = Inr (IndexPage example_catalog, example_cache)"
    unfolding index_def d by (simp add: example_cache_def)
  show ?thesis using a b c e by simp
qed

text \<open>
  C9, amended: when the images directory does not exist, a scan gives the empty list and
  raises nothing. A query that scans then (the cache is older than the time to live, or
  holds the empty list, as it does initially and after such a scan) sees the empty
  catalog and leaves the empty list in the cache: the index lists nothing, and no
  category or album is found.
\<close>

theorem missing_root_empty:
  "scan_once None = Inr [] \<and>
   (now - cache_at st > CACHE_TTL_SECONDS \<or> store st (cache_data st) = [] \<longrightarrow>
      (\<exists>r st'. get_catalog None now st = Inr (r, st') \<and> store st' r = [] \<and>
         store st' (cache_data st') = [] \<and>
         index None now st = Inr (IndexPage [], st') \<and>
         view_category cn None now st = Inr (NotFound, st') \<and>
         view_album cn an None now st = Inr (NotFound, st')))"
  by (auto simp: scan_once_def get_catalog_def index_def view_category_def view_album_def Let_def)

theorem missing_root_empty_witness:
  "store initial_cache (cache_data initial_cache) = [] \<and>
   (\<exists>st'. index None 100 initial_cache = Inr (IndexPage [], st') \<and>
      view_category (cps ''Travel'') None 100 initial_cache = Inr (NotFound, st') \<and>
      view_album (cps ''Travel'') (cps ''Z'') None 100 initial_cache = Inr (NotFound, st'))"
proof -
  have e: "store initial_cache (cache_data initial_cache) = []"
    by (simp add: initial_cache_def)
  show ?thesis
    using missing_root_empty[of 100 initial_cache "cps ''Travel''" "cps ''Z''"] e by blast
qed

text \<open>
  C3, as stated: a second call within five seconds of the first returns the same list
  object and leaves the cache as it is. It fails when the catalog is empty: over an
  empty images directory the call at time 101 scans again, although the call at time
  100 has just scanned; it returns a new list and moves the time stamp.
\<close>

theorem cache_empty_counterexample:
  "get_catalog (Some (Dir [])) 100 initial_cache = Inr (1, empty_state_first) \<and>
   get_catalog (Some (Dir [])) 101 empty_state_first = Inr (2, empty_state_second) \<and>
   (101::real) - 100 \<le> CACHE_TTL_SECONDS \<and>
   (2::nat) \<noteq> 1 \<and> cache_at empty_state_second \<noteq> cache_at empty_state_first"
  by (simp add: get_catalog_def scan_once_def initial_cache_def empty_state_first_def
      empty_state_second_def CACHE_TTL_SECONDS_def subdirs_def List.map_filter_simps fun_eq_iff
      Let_def)

text \<open>
  C3, amended: if a call returns a catalog that is not empty, a second call at most five
  seconds after the time stamp then stored returns the same reference and leaves the
  whole cache unchanged (no list is created, so no scan took place), whatever the
  directory tree is by then. The reference returned is always the stored one, and the
  time stamp stored by a call that found the cache older than the time to live is the
  time of that call. While the stored catalog is empty every call scans again, however
  young the cache is: it raises what the scan raises, or stores the list of the scan
  under a new reference, sets the time stamp to the time of the call and returns the new
  reference.
\<close>

theorem cache_hit:
  assumes "get_catalog root1 now1 st0 = Inr (r1, st1)"
    and "store st1 r1 \<noteq> []"
    and "now2 - cache_at st1 \<le> CACHE_TTL_SECONDS"
  shows "get_catalog root2 now2 st1 = Inr (r1, st1) \<and> r1 = cache_data st1 \<and>
         (now1 - cache_at st0 > CACHE_TTL_SECONDS \<longrightarrow> cache_at st1 = now1) \<and>
         (store st (cache_data st) = [] \<longrightarrow>
            get_catalog root3 now3 st =
              (case scan_once root3 of
                 Inl e \<Rightarrow> Inl e
               | Inr cats \<Rightarrow>
                   Inr (next_ref st,
                        st\<lparr>store := (store st)(next_ref st := cats),
                           next_ref := Suc (next_ref st),
                           cache_data := next_ref st, cache_at := now3\<rparr>)))"
proof -
  have r: "r1 = cache_data st1"
    using assms(1) by (auto simp: get_catalog_def Let_def split: if_splits sum.splits)
  have t: "now1 - cache_at st0 > CACHE_TTL_SECONDS \<longrightarrow> cache_at st1 = now1"
    using assms(1) by (auto simp: get_catalog_def Let_def split: if_splits sum.splits)
  have h: "get_catalog root2 now2 st1 = Inr (cache_data st1, st1)"
    using assms(2,3) unfolding r by (simp add: get_catalog_def)
  have e: "store st (cache_data st) = [] \<longrightarrow>
            get_catalog root3 now3 st =
              (case scan_once root3 of
                 Inl e \<Rightarrow> Inl e
               | Inr cats \<Rightarrow>
                   Inr (next_ref st,
                        st\<lparr>store := (store st)(next_ref st := cats),
                           next_ref := Suc (next_ref st),
                           cache_data := next_ref st, cache_at := now3\<rparr>))"
    by (simp add: get_catalog_def Let_def split: sum.splits)
  show ?thesis using h r t e by simp
qed

theorem cache_hit_witness:
  "get_catalog (Some example_tree) 100 initial_cache = Inr (1, example_cache) \<and>
   store example_cache 1 \<noteq> [] \<and>
   103 - cache_at example_cache \<le> CACHE_TTL_SECONDS \<and>
   (100::real) - cache_at initial_cache > CACHE_TTL_SECONDS \<and>
   get_catalog None 103 example_cache = Inr (1, example_cache) \<and>
   cache_at example_cache = 100 \<and>
   store empty_state_first (cache_data empty_state_first) = [] \<and>
   101 - cache_at empty_state_first \<le> CACHE_TTL_SECONDS \<and>
   get_catalog (Some (Dir [])) 101 empty_state_first = Inr (2, empty_state_second)"
proof -
  have a: "get_catalog (Some example_tree) 100 initial_cache = Inr (1, example_cache)"
    by (simp add: get_catalog_def example_scan initial_cache_def example_cache_def
        CACHE_TTL_SECONDS_def Let_def)
  have b: "store example_cache 1 \<noteq> []"
    by (simp add: example_cache_def example_catalog_def)
  have c: "103 - cache_at example_cache \<le> CACHE_TTL_SECONDS"
    by (simp add: example_cache_def CACHE_TTL_SECONDS_def)
  have d: "(100::real) - cache_at initial_cache > CACHE_TTL_SECONDS"
    by (simp add: initial_cache_def CACHE_TTL_SECONDS_def)
  have e: "store empty_state_first (cache_data empty_state_first) = []"
    by (simp add: empty_state_first_def)
  have f: "101 - cache_at empty_state_first \<le> CACHE_TTL_SECONDS"
    by (simp add: empty_state_first_def CACHE_TTL_SECONDS_def)
  have s: "scan_once (Some (Dir [])) = Inr []"
    by (simp add: scan_once_def subdirs_def List.map_filter_simps)
  have u: "empty_state_first\<lparr>store := (store empty_state_first)(2 := []), next_ref := 3,
             cache_data := 2, cache_at := 101\<rparr> = empty_state_second"
    by (simp add: empty_state_first_def empty_state_second_def fun_eq_iff)
  have n: "next_ref empty_state_first = 2"
    by (simp add: empty_state_first_def)
  note H = cache_hit[OF a b c, of None empty_state_first "Some (Dir [])" 101]
  have g: "get_catalog (Some (Dir [])) 101 empty_state_first = Inr (2, empty_state_second)"
    using H e unfolding s by (simp add: u n)
  show ?thesis
    using H a b c d e f g by blast
qed

lemma to_decimal_ascii: "k < 10 \<Longrightarrow> to_decimal (48 + k) = Some k"
  by (simp add: to_decimal_def digit_zero_table_def)

lemma isdecimal_ascii: "k < 10 \<Longrightarrow> isdecimal (48 + k)"
  by (simp add: isdecimal_def to_decimal_ascii)

lemma py_int_snoc:
  "py_int s = Some v \<Longrightarrow> isdecimal c \<Longrightarrow> py_int (s @ [c]) = Some (10 * v + the (to_decimal c))"
  by (auto simp: py_int_def split: if_splits)

lemma py_int_str_of_nat: "py_int (str_of_nat n) = Some n"
proof (induction n rule: str_of_nat.induct)
  case (1 n)
  show ?case
  proof (cases "n < 10")
    case True
    then show ?thesis
      by (subst str_of_nat.simps) (simp add: py_int_def isdecimal_ascii to_decimal_ascii)
  next
    case False
    have m: "n mod 10 < 10" by simp
    have "py_int (str_of_nat (n div 10) @ [48 + n mod 10]) =
            Some (10 * (n div 10) + the (to_decimal (48 + n mod 10)))"
      using "1.IH"[OF False] isdecimal_ascii[OF m] by (rule py_int_snoc)
    then show ?thesis
      using False by (subst str_of_nat.simps) (simp add: to_decimal_ascii[OF m])
  qed
qed

lemma mk_date_day: "mk_date y m dd = Some d \<Longrightarrow> day d \<noteq> 0"
  by (auto simp: mk_date_def split: if_splits)

lemma to_date_default_day:
  "py_int ys = Some y \<Longrightarrow> py_int ms = Some m \<Longrightarrow> to_date ys ms None = mk_date y m 1"
  by (simp add: to_date_def)

lemma day_always_rendered:
  assumes "mk_date y m dd = Some d"
  shows "jinja_cn_date (Some d) =
           str_of_nat y @ [0x20, cn_year, 0x20] @ str_of_nat m @ [0x20, cn_month]
           @ [0x20] @ str_of_nat dd @ [0x20, cn_day]"
  using assms by (auto simp: jinja_cn_date_def mk_date_def split: if_splits)

text \<open>
  C8: the filter renders an absent date as the fixed marker, and a date as year, the year
  sign, month and the month sign; the day is to be left out when it is unset. The filter
  does have a branch that leaves out a day of 0, but a date always has a day: a folder
  name without a day is given day 1 by the parser, so that the album \<open>2025-08 Hiking\<close>
  is shown with a first of the month that its name does not hold.
\<close>

theorem unset_day_rendered:
  "parse_title_date (cps ''2025-08 Hiking'') =
     (cps ''Hiking'', Some \<lparr>year = 2025, month = 8, day = 1\<rparr>) \<and>
   jinja_cn_date (Some \<lparr>year = 2025, month = 8, day = 1\<rparr>) =
     [0x32, 0x30, 0x32, 0x35, 0x20, 0x5E74, 0x20, 0x38, 0x20, 0x6708, 0x20, 0x31, 0x20, 0x65E5] \<and>
   jinja_cn_date (Some \<lparr>year = 2025, month = 8, day = 1\<rparr>) \<noteq>
     [0x32, 0x30, 0x32, 0x35, 0x20, 0x5E74, 0x20, 0x38, 0x20, 0x6708] \<and>
   jinja_cn_date None = [0x672A, 0x6807, 0x6CE8, 0x65E5, 0x671F]"
  by code_simp

section \<open>Properties of the matcher\<close>

lemma take_le_takeWhile_iff:
  "n \<le> length (takeWhile P s) \<longleftrightarrow> n \<le> length s \<and> list_all P (take n s)"
proof (induction s arbitrary: n)
  case Nil
  then show ?case by simp
next
  case (Cons x xs)
  then show ?case by (cases n) auto
qed

lemma drop_splits:
  "(\<exists>n. lo \<le> n \<and> n \<le> hi \<and> n \<le> length s \<and> list_all P (take n s) \<and> r = drop n s) \<longleftrightarrow>
   (\<exists>w. s = w @ r \<and> list_all P w \<and> lo \<le> length w \<and> length w \<le> hi)"
proof
  assume "\<exists>n. lo \<le> n \<and> n \<le> hi \<and> n \<le> length s \<and> list_all P (take n s) \<and> r = drop n s"
  then obtain n where n: "lo \<le> n" "n \<le> hi" "n \<le> length s" "list_all P (take n s)" "r = drop n s"
    by blast
  show "\<exists>w. s = w @ r \<and> list_all P w \<and> lo \<le> length w \<and> length w \<le> hi"
    using n by (intro exI[of _ "take n s"]) simp
next
  assume "\<exists>w. s = w @ r \<and> list_all P w \<and> lo \<le> length w \<and> length w \<le> hi"
  then obtain w where w: "s = w @ r" "list_all P w" "lo \<le> length w" "length w \<le> hi"
    by blast
  show "\<exists>n. lo \<le> n \<and> n \<le> hi \<and> n \<le> length s \<and> list_all P (take n s) \<and> r = drop n s"
    using w by (intro exI[of _ "length w"]) simp
qed

lemma in_drop_range:
  "(r, g') \<in> (\<lambda>n. (drop n s, g)) ` {lo..<Suc hi} \<longleftrightarrow>
     (\<exists>n. lo \<le> n \<and> n \<le> hi \<and> r = drop n s) \<and> g' = g"
  by (auto simp del: atLeastLessThanSuc simp add: less_Suc_eq_le image_iff)

lemma in_matches_Ch:
  "(r, g') \<in> set (matches (Ch c) s g) \<longleftrightarrow> s = c # r \<and> g' = g"
  by (auto split: list.splits)

lemma in_matches_One:
  "(r, g') \<in> set (matches (One k) s g) \<longleftrightarrow> (\<exists>c. s = c # r \<and> cls_ok k c) \<and> g' = g"
  by (auto split: list.splits)

lemma in_matches_Star:
  "(r, g') \<in> set (matches (Star k) s g) \<longleftrightarrow>
     (\<exists>w. s = w @ r \<and> list_all (cls_ok k) w) \<and> g' = g"
proof -
  have "(r, g') \<in> set (matches (Star k) s g) \<longleftrightarrow>
        (\<exists>n. 0 \<le> n \<and> n \<le> length s \<and> n \<le> length s \<and> list_all (cls_ok k) (take n s) \<and> r = drop n s)
        \<and> g' = g"
    unfolding matches.simps set_map set_rev set_upt in_drop_range
    by (auto simp: take_le_takeWhile_iff)
  then show ?thesis
    using drop_splits[of 0 "length s" s "cls_ok k" r] by auto
qed

lemma in_matches_PlusLazy:
  "(r, g') \<in> set (matches (PlusLazy k) s g) \<longleftrightarrow>
     (\<exists>w. s = w @ r \<and> list_all (cls_ok k) w \<and> w \<noteq> []) \<and> g' = g"
proof -
  have "(r, g') \<in> set (matches (PlusLazy k) s g) \<longleftrightarrow>
        (\<exists>n. 1 \<le> n \<and> n \<le> length s \<and> n \<le> length s \<and> list_all (cls_ok k) (take n s) \<and> r = drop n s)
        \<and> g' = g"
    unfolding matches.simps set_map set_rev set_upt in_drop_range
    by (auto simp: take_le_takeWhile_iff)
  then show ?thesis
    using drop_splits[of 1 "length s" s "cls_ok k" r] by (auto simp: Suc_le_eq)
qed

lemma in_matches_Rep:
  "(r, g') \<in> set (matches (Rep k lo hi) s g) \<longleftrightarrow>
     (\<exists>w. s = w @ r \<and> list_all (cls_ok k) w \<and> lo \<le> length w \<and> length w \<le> hi) \<and> g' = g"
proof -
  have "(r, g') \<in> set (matches (Rep k lo hi) s g) \<longleftrightarrow>
        (\<exists>n. lo \<le> n \<and> n \<le> hi \<and> n \<le> length s \<and> list_all (cls_ok k) (take n s) \<and> r = drop n s)
        \<and> g' = g"
    unfolding matches.simps set_map set_rev set_upt in_drop_range
    by (auto simp: take_le_takeWhile_iff)
  then show ?thesis
    using drop_splits[of lo hi s "cls_ok k" r] by auto
qed

lemma in_matches_Seq:
  "(r, g') \<in> set (matches (Seq a b) s g) \<longleftrightarrow>
     (\<exists>m gm. (m, gm) \<in> set (matches a s g) \<and> (r, g') \<in> set (matches b m gm))"
  by auto

lemma in_matches_Opt:
  "(r, g') \<in> set (matches (Opt a) s g) \<longleftrightarrow>
     (r, g') \<in> set (matches a s g) \<or> (r = s \<and> g' = g)"
  by auto

lemma in_matches_Emp: "(r, g') \<in> set (matches Emp s g) \<longleftrightarrow> r = s \<and> g' = g"
  by auto

lemma in_matches_Eol:
  "(r, g') \<in> set (matches Eol s g) \<longleftrightarrow> r = s \<and> g' = g \<and> (s = [] \<or> s = [0xA])"
  by auto

lemma matches_suffix:
  "(r, g') \<in> set (matches p s g) \<Longrightarrow> \<exists>w. s = w @ r"
proof (induction p arbitrary: s g r g')
  case (Seq a b)
  then obtain m gm where "(m, gm) \<in> set (matches a s g)" "(r, g') \<in> set (matches b m gm)"
    by (auto simp: in_matches_Seq)
  then show ?case using Seq.IH by (metis append.assoc)
next
  case (Group n p)
  then show ?case by auto
next
  case (Opt p)
  then show ?case by (auto simp: in_matches_Opt)
qed (auto simp: in_matches_Ch in_matches_One in_matches_Star in_matches_PlusLazy
      in_matches_Rep in_matches_Eol in_matches_Emp simp del: matches.simps)

lemma in_matches_Group:
  "(r, g') \<in> set (matches (Group n p) s g) \<longleftrightarrow>
     (\<exists>w g1. s = w @ r \<and> (r, g1) \<in> set (matches p s g) \<and> g' = set_group n w g1)"
proof
  assume "(r, g') \<in> set (matches (Group n p) s g)"
  then obtain g1 where g1: "(r, g1) \<in> set (matches p s g)"
      "g' = set_group n (take (length s - length r) s) g1"
    by auto
  obtain w where w: "s = w @ r" using matches_suffix[OF g1(1)] by blast
  show "\<exists>w g1. s = w @ r \<and> (r, g1) \<in> set (matches p s g) \<and> g' = set_group n w g1"
    using g1 w by (intro exI[of _ w] exI[of _ g1]) simp
next
  assume "\<exists>w g1. s = w @ r \<and> (r, g1) \<in> set (matches p s g) \<and> g' = set_group n w g1"
  then obtain w g1 where "s = w @ r" "(r, g1) \<in> set (matches p s g)" "g' = set_group n w g1"
    by blast
  then show "(r, g') \<in> set (matches (Group n p) s g)"
    by (force simp: image_iff)
qed

lemmas in_matches =
  in_matches_Ch in_matches_One in_matches_Star in_matches_PlusLazy in_matches_Rep
  in_matches_Seq in_matches_Opt in_matches_Emp in_matches_Eol in_matches_Group

lemma cat_Cons: "cat (a # rs) = Seq a (cat rs)"
  by (simp add: cat_def)

lemma cat_Nil: "cat [] = Emp"
  by (simp add: cat_def)

lemma cls_ok_funs:
  "cls_ok Digit = isdecimal" "cls_ok Space = isspace" "cls_ok sep_class = is_sep"
  by (auto simp: sep_class_def is_sep_def fun_eq_iff)

lemma in_digits_group:
  "(r, g') \<in> set (matches (Group n (Rep Digit lo hi)) s g) \<longleftrightarrow>
     (\<exists>w. s = w @ r \<and> digits lo hi w \<and> g' = set_group n w g)"
  by (auto simp: in_matches_Group in_matches_Rep digits_def cls_ok_funs simp del: matches.simps)

lemma in_title_group:
  "(r, g') \<in> set (matches (Group n (PlusLazy Dot)) s g) \<longleftrightarrow>
     (\<exists>w. s = w @ r \<and> w \<noteq> [] \<and> 0xA \<notin> set w \<and> g' = set_group n w g)"
  by (auto simp: in_matches_Group in_matches_PlusLazy list_all_iff simp del: matches.simps)

lemma in_spaces:
  "(r, g') \<in> set (matches (Star Space) s g) \<longleftrightarrow> (\<exists>w. s = w @ r \<and> spaces w) \<and> g' = g"
  by (auto simp: in_matches_Star spaces_def cls_ok_funs simp del: matches.simps)

lemma in_sep:
  "(r, g') \<in> set (matches (One sep_class) s g) \<longleftrightarrow> (\<exists>c. s = c # r \<and> is_sep c) \<and> g' = g"
  by (auto simp: in_matches_One cls_ok_funs simp del: matches.simps)

lemmas in_atoms =
  in_digits_group in_title_group in_spaces in_sep in_matches_Ch in_matches_Seq
  in_matches_Opt in_matches_Emp in_matches_Eol










lemma cat_append:
  "(r, g') \<in> set (matches (cat (ps @ rs)) s g) \<longleftrightarrow>
   (\<exists>u g1. (u, g1) \<in> set (matches (cat ps) s g) \<and> (r, g') \<in> set (matches (cat rs) u g1))"
proof (induction ps arbitrary: s g)
  case Nil
  then show ?case by (simp add: cat_Nil)
next
  case (Cons p ps)
  show ?case
    unfolding append_Cons cat_Cons in_matches_Seq Cons.IH by blast
qed



lemma cat_digits_iff:
  "(r, g') \<in> set (matches (cat (Group n (Rep Digit lo hi) # rs)) s g) \<longleftrightarrow>
   (\<exists>w u. s = w @ u \<and> digits lo hi w \<and> (r, g') \<in> set (matches (cat rs) u (set_group n w g)))"
  unfolding cat_Cons in_matches_Seq in_digits_group by blast

lemma cat_title_iff:
  "(r, g') \<in> set (matches (cat (Group n (PlusLazy Dot) # rs)) s g) \<longleftrightarrow>
   (\<exists>w u. s = w @ u \<and> w \<noteq> [] \<and> 0xA \<notin> set w \<and>
      (r, g') \<in> set (matches (cat rs) u (set_group n w g)))"
  unfolding cat_Cons in_matches_Seq in_title_group by blast

lemma cat_spaces_iff:
  "(r, g') \<in> set (matches (cat (Star Space # rs)) s g) \<longleftrightarrow>
   (\<exists>w u. s = w @ u \<and> spaces w \<and> (r, g') \<in> set (matches (cat rs) u g))"
  unfolding cat_Cons in_matches_Seq in_spaces by blast

lemma cat_sep_iff:
  "(r, g') \<in> set (matches (cat (One sep_class # rs)) s g) \<longleftrightarrow>
   (\<exists>c u. s = c # u \<and> is_sep c \<and> (r, g') \<in> set (matches (cat rs) u g))"
  unfolding cat_Cons in_matches_Seq in_sep by blast

lemma cat_Ch_iff:
  "(r, g') \<in> set (matches (cat (Ch c # rs)) s g) \<longleftrightarrow>
   (\<exists>u. s = c # u \<and> (r, g') \<in> set (matches (cat rs) u g))"
  unfolding cat_Cons in_matches_Seq in_matches_Ch by blast

lemma cat_Opt_iff:
  "(r, g') \<in> set (matches (cat (Opt p # rs)) s g) \<longleftrightarrow>
   (\<exists>u g1. (u, g1) \<in> set (matches p s g) \<and> (r, g') \<in> set (matches (cat rs) u g1)) \<or>
   (r, g') \<in> set (matches (cat rs) s g)"
  unfolding cat_Cons in_matches_Seq in_matches_Opt by blast

lemma cat_Eol_iff:
  "(r, g') \<in> set (matches (cat (Eol # rs)) s g) \<longleftrightarrow>
   (s = [] \<or> s = [0xA]) \<and> (r, g') \<in> set (matches (cat rs) s g)"
  unfolding cat_Cons in_matches_Seq in_matches_Eol by blast

lemma cat_Nil_iff: "(r, g') \<in> set (matches (cat []) s g) \<longleftrightarrow> r = s \<and> g' = g"
  by (simp add: cat_Nil)

lemma iso_date_E:
  assumes "(r, g') \<in> set (matches (cat iso_date) s g)"
  obtains (no_day) y c1 m where "digits 4 4 y" "is_sep c1" "digits 1 2 m"
      "s = y @ c1 # m @ r" "g' = g\<lparr>gd_y := Some y, gd_m := Some m\<rparr>"
  | (with_day) y c1 m c2 d where "digits 4 4 y" "is_sep c1" "digits 1 2 m" "is_sep c2"
      "digits 1 2 d" "s = y @ c1 # m @ c2 # d @ r"
      "g' = g\<lparr>gd_y := Some y, gd_m := Some m, gd_d := Some d\<rparr>"
proof -
  from assms obtain y u1 where 1: "s = y @ u1" "digits 4 4 y"
    and "(r, g') \<in> set (matches (cat [One sep_class, Group G_m (Rep Digit 1 2),
            Opt (cat [One sep_class, Group G_d (Rep Digit 1 2)])]) u1 (set_group G_y y g))"
    unfolding iso_date_def cat_digits_iff by blast
  then obtain c1 u2 where 2: "u1 = c1 # u2" "is_sep c1"
    and "(r, g') \<in> set (matches (cat [Group G_m (Rep Digit 1 2),
            Opt (cat [One sep_class, Group G_d (Rep Digit 1 2)])]) u2 (set_group G_y y g))"
    unfolding cat_sep_iff by blast
  then obtain m u3 where 3: "u2 = m @ u3" "digits 1 2 m"
    and "(r, g') \<in> set (matches (cat [Opt (cat [One sep_class, Group G_d (Rep Digit 1 2)])])
            u3 (set_group G_m m (set_group G_y y g)))"
    unfolding cat_digits_iff by blast
  then consider
      (a) "r = u3" "g' = set_group G_m m (set_group G_y y g)"
    | (b) "(r, g') \<in> set (matches (cat [One sep_class, Group G_d (Rep Digit 1 2)])
            u3 (set_group G_m m (set_group G_y y g)))"
    unfolding cat_Opt_iff cat_Nil_iff by blast
  then show thesis
  proof cases
    case a
    show thesis
      by (rule no_day[OF 1(2) 2(2) 3(2)]) (simp_all add: 1 2 3 a)
  next
    case b
    then obtain c2 u4 where 4: "u3 = c2 # u4" "is_sep c2"
      and "(r, g') \<in> set (matches (cat [Group G_d (Rep Digit 1 2)])
            u4 (set_group G_m m (set_group G_y y g)))"
      unfolding cat_sep_iff by blast
    then obtain d where 5: "u4 = d @ r" "digits 1 2 d"
      "g' = set_group G_d d (set_group G_m m (set_group G_y y g))"
      unfolding cat_digits_iff cat_Nil_iff by blast
    show thesis
      by (rule with_day[OF 1(2) 2(2) 3(2) 4(2) 5(2)]) (simp_all add: 1 2 3 4 5)
  qed
qed

lemma cn_date_E:
  assumes "(r, g') \<in> set (matches (cat cn_date) s g)"
  obtains (no_day) y w1 w2 m w3 where "digits 4 4 y" "spaces w1" "spaces w2" "digits 1 2 m"
      "spaces w3" "s = y @ w1 @ cn_year # w2 @ m @ w3 @ cn_month # r"
      "g' = g\<lparr>gd_y := Some y, gd_m := Some m\<rparr>"
  | (with_day) y w1 w2 m w3 w4 d w5 where "digits 4 4 y" "spaces w1" "spaces w2"
      "digits 1 2 m" "spaces w3" "spaces w4" "digits 1 2 d" "spaces w5"
      "s = y @ w1 @ cn_year # w2 @ m @ w3 @ cn_month # w4 @ d @ w5 @ cn_day # r"
      "g' = g\<lparr>gd_y := Some y, gd_m := Some m, gd_d := Some d\<rparr>"
proof -
  let ?opt = "Opt (cat [Star Space, Group G_d (Rep Digit 1 2), Star Space, Ch cn_day])"
  from assms obtain y u1 where 1: "s = y @ u1" "digits 4 4 y"
    and "(r, g') \<in> set (matches (cat [Star Space, Ch cn_year, Star Space,
            Group G_m (Rep Digit 1 2), Star Space, Ch cn_month, ?opt]) u1 (set_group G_y y g))"
    unfolding cn_date_def cat_digits_iff by blast
  then obtain w1 u2 where 2: "u1 = w1 @ cn_year # u2" "spaces w1"
    and "(r, g') \<in> set (matches (cat [Star Space,
            Group G_m (Rep Digit 1 2), Star Space, Ch cn_month, ?opt]) u2 (set_group G_y y g))"
    unfolding cat_spaces_iff cat_Ch_iff by blast
  then obtain w2 m u3 where 3: "u2 = w2 @ m @ u3" "spaces w2" "digits 1 2 m"
    and "(r, g') \<in> set (matches (cat [Star Space, Ch cn_month, ?opt]) u3
            (set_group G_m m (set_group G_y y g)))"
    unfolding cat_spaces_iff cat_digits_iff by blast
  then obtain w3 u4 where 4: "u3 = w3 @ cn_month # u4" "spaces w3"
    and "(r, g') \<in> set (matches (cat [?opt]) u4 (set_group G_m m (set_group G_y y g)))"
    unfolding cat_spaces_iff cat_Ch_iff by blast
  then consider
      (a) "r = u4" "g' = set_group G_m m (set_group G_y y g)"
    | (b) "(r, g') \<in> set (matches (cat [Star Space, Group G_d (Rep Digit 1 2), Star Space,
            Ch cn_day]) u4 (set_group G_m m (set_group G_y y g)))"
    unfolding cat_Opt_iff cat_Nil_iff by blast
  then show thesis
  proof cases
    case a
    show thesis
      by (rule no_day[OF 1(2) 2(2) 3(2,3) 4(2)]) (simp_all add: 1 2 3 4 a)
  next
    case b
    then obtain w4 d u5 where 5: "u4 = w4 @ d @ u5" "spaces w4" "digits 1 2 d"
      and "(r, g') \<in> set (matches (cat [Star Space, Ch cn_day]) u5
            (set_group G_d d (set_group G_m m (set_group G_y y g))))"
      unfolding cat_spaces_iff cat_digits_iff by blast
    then obtain w5 where 6: "u5 = w5 @ cn_day # r" "spaces w5"
      "g' = set_group G_d d (set_group G_m m (set_group G_y y g))"
      unfolding cat_spaces_iff cat_Ch_iff cat_Nil_iff by blast
    show thesis
      by (rule with_day[OF 1(2) 2(2) 3(2,3) 4(2) 5(2,3) 6(2)]) (simp_all add: 1 2 3 4 5 6)
  qed
qed





lemma newline_space: "isspace 0xA"
  by (simp add: isspace_def whitespace_table_def)












lemma spaces_simps:
  "spaces []" "spaces (w @ v) \<longleftrightarrow> spaces w \<and> spaces v" "spaces (c # w) \<longleftrightarrow> isspace c \<and> spaces w"
  by (auto simp: spaces_def)











lemma patterns_eq:
  "cn_title_first = title_first True" "cn_date_first = date_first True"
  "iso_title_first = title_first False" "iso_date_first = date_first False"
  by (simp_all add: title_first_def date_first_def date_rx_def cn_title_first_def
      cn_date_first_def iso_title_first_def iso_date_first_def)

lemma with_groups_fields:
  "gd_y (with_groups dt g) = Some (year_digits dt)"
  "gd_m (with_groups dt g) = Some (month_digits dt)"
  "gd_d (with_groups dt g) = (case day_digits dt of None \<Rightarrow> gd_d g | Some d \<Rightarrow> Some d)"
  "gd_title (with_groups dt g) = gd_title g"
  by (auto simp: with_groups_def split: option.splits)

lemma date_E:
  assumes "(r, g') \<in> set (matches (cat (date_rx long)) s g)"
  obtains dt where "is_long dt = long" "well_formed dt" "s = text_of dt @ r"
    "g' = with_groups dt g"
proof (cases long)
  case True
  then have m: "(r, g') \<in> set (matches (cat cn_date) s g)"
    using assms by (simp add: date_rx_def)
  from m show thesis
  proof (cases rule: cn_date_E)
    case (no_day y w1 w2 m w3)
    show thesis
      using no_day True
      by (intro that[of "Long_form y w1 w2 m w3 None"]) (simp_all add: with_groups_def)
  next
    case (with_day y w1 w2 m w3 w4 d w5)
    show thesis
      using with_day True
      by (intro that[of "Long_form y w1 w2 m w3 (Some (w4, d, w5))"])
        (simp_all add: with_groups_def)
  qed
next
  case False
  then have m: "(r, g') \<in> set (matches (cat iso_date) s g)"
    using assms by (simp add: date_rx_def)
  from m show thesis
  proof (cases rule: iso_date_E)
    case (no_day y c1 m)
    show thesis
      using no_day False
      by (intro that[of "Numeric y c1 m None"]) (simp_all add: with_groups_def)
  next
    case (with_day y c1 m c2 d)
    show thesis
      using with_day False
      by (intro that[of "Numeric y c1 m (Some (c2, d))"]) (simp_all add: with_groups_def)
  qed
qed


lemma title_first_E:
  assumes "(rest, g) \<in> set (matches (title_first long) s g0)"
  obtains t w dt where "s = t @ w @ text_of dt @ rest" "t \<noteq> []" "0xA \<notin> set t" "spaces w"
    "is_long dt = long" "well_formed dt" "rest = [] \<or> rest = [0xA]"
    "g = with_groups dt (g0\<lparr>gd_title := Some t\<rparr>)"
proof -
  from assms obtain t u1 where 1: "s = t @ u1" "t \<noteq> []" "0xA \<notin> set t"
    and "(rest, g) \<in> set (matches (cat ([Star Space] @ date_rx long @ [Eol])) u1
           (set_group G_title t g0))"
    unfolding title_first_def append_Cons append_Nil cat_title_iff by auto
  then obtain w u2 where 2: "u1 = w @ u2" "spaces w"
    and "(rest, g) \<in> set (matches (cat (date_rx long @ [Eol])) u2 (set_group G_title t g0))"
    unfolding append_Cons append_Nil cat_spaces_iff by blast
  then obtain u3 g1 where 3: "(u3, g1) \<in> set (matches (cat (date_rx long)) u2
        (set_group G_title t g0))"
    and 4: "(rest, g) \<in> set (matches (cat [Eol]) u3 g1)"
    unfolding cat_append by blast
  from 4 have 5: "rest = u3" "g = g1" "rest = [] \<or> rest = [0xA]"
    unfolding cat_Eol_iff cat_Nil_iff by auto
  obtain dt where 6: "is_long dt = long" "well_formed dt" "u2 = text_of dt @ u3"
    "g1 = with_groups dt (set_group G_title t g0)"
    using date_E[OF 3] by blast
  show thesis
    using 1 2 5 6 by (intro that[of t w dt]) simp_all
qed

lemma date_first_E:
  assumes "(rest, g) \<in> set (matches (date_first long) s g0)"
  obtains dt w t where "s = text_of dt @ w @ t @ rest" "t \<noteq> []" "0xA \<notin> set t" "spaces w"
    "is_long dt = long" "well_formed dt" "rest = [] \<or> rest = [0xA]"
    "g = (with_groups dt g0)\<lparr>gd_title := Some t\<rparr>"
proof -
  from assms obtain u1 g1 where 1: "(u1, g1) \<in> set (matches (cat (date_rx long)) s g0)"
    and "(rest, g) \<in> set (matches (cat [Star Space, Group G_title (PlusLazy Dot), Eol]) u1 g1)"
    unfolding date_first_def cat_append by blast
  then obtain w u2 where 2: "u1 = w @ u2" "spaces w"
    and "(rest, g) \<in> set (matches (cat [Group G_title (PlusLazy Dot), Eol]) u2 g1)"
    unfolding cat_spaces_iff by blast
  then obtain t where 3: "u2 = t @ rest" "t \<noteq> []" "0xA \<notin> set t"
    "rest = [] \<or> rest = [0xA]" "g = set_group G_title t g1"
    unfolding cat_title_iff cat_Eol_iff cat_Nil_iff by auto
  obtain dt where 4: "is_long dt = long" "well_formed dt" "s = text_of dt @ u1"
    "g1 = with_groups dt g0"
    using date_E[OF 1] by blast
  show thesis
    using 2 3 4 by (intro that[of dt w t]) simp_all
qed

section \<open>Properties of the parser\<close>

lemma in_dropWhile: "x \<in> set t \<Longrightarrow> \<not> P x \<Longrightarrow> x \<in> set (dropWhile P t)"
  by (induction t) auto

lemma strip_nonempty: "x \<in> set t \<Longrightarrow> \<not> isspace x \<Longrightarrow> strip t \<noteq> []"
proof -
  assume "x \<in> set t" "\<not> isspace x"
  then have "x \<in> set (dropWhile isspace t)" by (rule in_dropWhile)
  then have "x \<in> set (rev (dropWhile isspace t))" by simp
  then have "x \<in> set (dropWhile isspace (rev (dropWhile isspace t)))"
    using \<open>\<not> isspace x\<close> by (rule in_dropWhile)
  then have "dropWhile isspace (rev (dropWhile isspace t)) \<noteq> []"
    by (metis empty_iff empty_set)
  then show "strip t \<noteq> []" unfolding strip_def strip_with_def rev_is_Nil_conv .
qed

lemma last_dropWhile: "dropWhile P xs \<noteq> [] \<Longrightarrow> last (dropWhile P xs) = last xs"
  by (induction xs) (auto split: if_splits)

lemma strip_ends:
  assumes "strip f \<noteq> []"
  shows "\<not> isspace (hd (strip f))" and "\<not> isspace (last (strip f))"
proof -
  let ?a = "dropWhile isspace f"
  let ?b = "dropWhile isspace (rev ?a)"
  have b: "?b \<noteq> []" using assms unfolding strip_def strip_with_def rev_is_Nil_conv .
  then have a: "?a \<noteq> []" by (metis dropWhile.simps(1) rev.simps(1))
  have "last (strip f) = hd ?b" using b by (simp add: strip_def strip_with_def last_rev)
  then show "\<not> isspace (last (strip f))" using b hd_dropWhile by metis
  have "hd (strip f) = last ?b" using b by (simp add: strip_def strip_with_def hd_rev)
  also have "\<dots> = last (rev ?a)" using b by (rule last_dropWhile)
  also have "\<dots> = hd ?a" using a by (simp add: last_rev)
  finally show "\<not> isspace (hd (strip f))" using a hd_dropWhile by metis
qed



lemma re_match_SomeD: "re_match p s = Some m \<Longrightarrow> m \<in> set (matches p s no_groups)"
  by (auto simp: re_match_def split: list.splits)

lemma re_match_None_iff: "re_match p s = None \<longleftrightarrow> set (matches p s no_groups) = {}"
  by (auto simp: re_match_def split: list.splits)

lemma on_match_title:
  "gd_title g = Some t \<Longrightarrow> strip t \<noteq> [] \<Longrightarrow>
   on_match p s g = (strip t, to_date (the (gd_y g)) (the (gd_m g)) (gd_d g))"
  by (simp add: on_match_def Let_def)

text \<open>
  Whenever one of the four patterns matches a stripped name, the groups \<open>y\<close> and \<open>m\<close> are
  set and the title group is not empty after stripping: the branch of
  \<open>parse_title_date\<close> for an empty title is never taken.
\<close>

lemma pattern_match_groups:
  assumes p: "p \<in> set (cn_patterns @ iso_patterns)"
    and m: "re_match p (strip f) = Some (rest, g)"
  shows "\<exists>t y mo. gd_title g = Some t \<and> strip t \<noteq> [] \<and> gd_y g = Some y \<and> gd_m g = Some mo"
proof -
  let ?s = "strip f"
  have mem: "(rest, g) \<in> set (matches p ?s no_groups)" using m by (rule re_match_SomeD)
  from p consider long where "p = title_first long" | long where "p = date_first long"
    by (auto simp: cn_patterns_def iso_patterns_def patterns_eq)
  then show ?thesis
  proof cases
    case 1
    from mem obtain t w dt where d: "?s = t @ w @ text_of dt @ rest" "t \<noteq> []"
      "g = with_groups dt (no_groups\<lparr>gd_title := Some t\<rparr>)"
      unfolding 1 by (rule title_first_E)
    have "?s \<noteq> []" using d by simp
    then have "\<not> isspace (hd ?s)" by (rule strip_ends)
    then have "\<not> isspace (hd t)" using d by simp
    then have "strip t \<noteq> []" using d(2) by (intro strip_nonempty[of "hd t"]) auto
    then show ?thesis using d(3) by (simp add: with_groups_fields)
  next
    case 2
    from mem obtain dt w t where d: "?s = text_of dt @ w @ t @ rest" "t \<noteq> []"
      "rest = [] \<or> rest = [0xA]" "g = (with_groups dt no_groups)\<lparr>gd_title := Some t\<rparr>"
      unfolding 2 by (rule date_first_E)
    have ne: "?s \<noteq> []" using d by simp
    then have l: "\<not> isspace (last ?s)" by (rule strip_ends)
    have "rest = []"
    proof (rule ccontr)
      assume "rest \<noteq> []"
      then have "rest = [0xA]" using d(3) by simp
      then have "last ?s = 0xA" using d(1) by simp
      then show False using l newline_space by simp
    qed
    then have "last ?s = last t" using d by simp
    then have "\<not> isspace (last t)" using l by simp
    then have "strip t \<noteq> []" using d(2) by (intro strip_nonempty[of "last t"]) auto
    then show ?thesis using d(4) by (simp add: with_groups_fields)
  qed
qed

lemma try_patterns_first:
  assumes "\<forall>q\<in>set ps. re_match q s = None" and "re_match p s = Some (rest, g)"
  shows "try_patterns (ps @ p # qs) s = on_match p s g"
  using assms by (induction ps) simp_all

text \<open>
  C2: when the first pattern that matches a folder name captures year, month and day that
  do not form a calendar date, \<open>parse_title_date\<close> returns the stripped title group of
  that match (which is not empty) and no date; the patterns after it are not tried.
\<close>

theorem invalid_date_keeps_title:
  assumes "cn_patterns @ iso_patterns = ps @ p # qs"
    and "\<forall>q\<in>set ps. re_match q (strip folder_name) = None"
    and "re_match p (strip folder_name) = Some (rest, g)"
    and "to_date (the (gd_y g)) (the (gd_m g)) (gd_d g) = None"
  shows "\<exists>t. gd_title g = Some t \<and> strip t \<noteq> [] \<and>
           parse_title_date folder_name = (strip t, None)"
proof -
  have "p \<in> set (cn_patterns @ iso_patterns)" unfolding assms(1) by simp
  then obtain t where t: "gd_title g = Some t" "strip t \<noteq> []"
    using pattern_match_groups[OF _ assms(3)] by blast
  have "parse_title_date folder_name = on_match p (strip folder_name) g"
    unfolding parse_title_date_def assms(1) using assms(2,3) by (rule try_patterns_first)
  then show ?thesis using t assms(4) by (simp add: on_match_title)
qed

lemma invalid_month_match:
  "re_match cn_title_first (strip invalid_month_folder) =
     Some ([], \<lparr>gd_title = Some (cps ''2025-01-01 x''), gd_y = Some (cps ''2025''),
                gd_m = Some (cps ''13''), gd_d = None\<rparr>)"
  by code_simp

theorem invalid_date_keeps_title_witness:
  "cn_patterns @ iso_patterns =
     [] @ cn_title_first # [cn_date_first, iso_title_first, iso_date_first] \<and>
   re_match cn_title_first (strip invalid_month_folder) =
     Some ([], \<lparr>gd_title = Some (cps ''2025-01-01 x''), gd_y = Some (cps ''2025''),
                gd_m = Some (cps ''13''), gd_d = None\<rparr>) \<and>
   to_date (cps ''2025'') (cps ''13'') None = None \<and>
   parse_title_date invalid_month_folder = (cps ''2025-01-01 x'', None) \<and>
   re_match iso_date_first (strip invalid_month_folder) =
     Some ([], \<lparr>gd_title = Some (cps ''x 2025 '' @ [cn_year] @ cps '' 13 '' @ [cn_month]),
                gd_y = Some (cps ''2025''), gd_m = Some (cps ''01''),
                gd_d = Some (cps ''01'')\<rparr>) \<and>
   to_date (cps ''2025'') (cps ''01'') (Some (cps ''01'')) =
     Some \<lparr>year = 2025, month = 1, day = 1\<rparr>"
proof -
  let ?g = "\<lparr>gd_title = Some (cps ''2025-01-01 x''), gd_y = Some (cps ''2025''),
             gd_m = Some (cps ''13''), gd_d = None\<rparr>"
  have a: "cn_patterns @ iso_patterns =
     [] @ cn_title_first # [cn_date_first, iso_title_first, iso_date_first]"
    by (simp add: cn_patterns_def iso_patterns_def)
  have b: "\<forall>q\<in>set []. re_match q (strip invalid_month_folder) = None" by simp
  have d: "to_date (cps ''2025'') (cps ''13'') None = None" by code_simp
  then have d': "to_date (the (gd_y ?g)) (the (gd_m ?g)) (gd_d ?g) = None" by simp
  have s: "strip (cps ''2025-01-01 x'') = cps ''2025-01-01 x''" by code_simp
  have e: "parse_title_date invalid_month_folder = (cps ''2025-01-01 x'', None)"
    using invalid_date_keeps_title[OF a b invalid_month_match d'] s by simp
  have f: "re_match iso_date_first (strip invalid_month_folder) =
     Some ([], \<lparr>gd_title = Some (cps ''x 2025 '' @ [cn_year] @ cps '' 13 '' @ [cn_month]),
                gd_y = Some (cps ''2025''), gd_m = Some (cps ''01''),
                gd_d = Some (cps ''01'')\<rparr>)"
    by code_simp
  have h: "to_date (cps ''2025'') (cps ''01'') (Some (cps ''01'')) =
     Some \<lparr>year = 2025, month = 1, day = 1\<rparr>"
    by code_simp
  show ?thesis using a invalid_month_match d e f h by blast
qed

text \<open>
  C7: a folder name that is only a date. The comment in \<open>parse_title_date\<close> and the branch
  for an empty title expect such a name to match with an empty title, from which the
  title would be derived; but the title group \<open>.+?\<close> takes at least one character, so
  the last pattern splits the day: the title is the last digit and the day is the digit
  before it.
\<close>

theorem date_only_name_misparsed:
  "parse_title_date (cps ''2025-08-24'') =
     (cps ''4'', Some \<lparr>year = 2025, month = 8, day = 2\<rparr>)"
  by code_simp

section \<open>Names made of a title and a date\<close>














section \<open>What the matcher finds first\<close>







































section \<open>Properties of the file server\<close>

lemma lookup_append:
  "lookup fs (p @ q) = (case lookup fs p of None \<Rightarrow> None | Some n \<Rightarrow> lookup n q)"
  by (induction fs p rule: lookup.induct) (auto split: option.splits)

text \<open>Whatever is sent is a regular file below the images directory.\<close>

lemma media_sends_inside:
  assumes "media fs base_dir filename = Inr (SentFile q)"
  shows "take (length (IMAGES_ROOT base_dir)) q = IMAGES_ROOT base_dir \<and> lookup fs q = Some File"
  using assms
  by (auto simp: media_def send_from_directory_def safe_join_def isfile_def Let_def
      split: if_splits option.splits)

text \<open>A request that leaves the images directory is not found, although the file exists.\<close>

lemma media_traversal_not_found:
  "lookup media_tree [cps ''srv'', cps ''secret.jpg''] = Some File \<and>
   media media_tree [cps ''srv''] (cps ''../secret.jpg'') = Inr NotFound \<and>
   media media_tree [cps ''srv''] (cps ''a/../../secret.jpg'') = Inr NotFound \<and>
   media media_tree [cps ''srv''] (cps ''/srv/secret.jpg'') = Inr NotFound \<and>
   media media_tree [cps ''srv''] (cps ''a/b.jpg'') =
     Inr (SentFile [cps ''srv'', cps ''images'', cps ''a'', cps ''b.jpg''])"
  by code_simp

text \<open>
  C4: a file is to be returned only when the resolved path lies in the images
  directory, has an allowed extension and is a file. The resolved path is checked, but
  what is handed to \<open>send_from_directory\<close> is its relative path with every backslash
  replaced by a slash, which may name another file: for the request \<open>a\b.jpg\<close> the
  resolved path is the directory \<open>images/a\b.jpg\<close>, not a file, and the file
  \<open>images/a/b.jpg\<close> is sent.
\<close>

theorem media_sends_other_file:
  "resolve (joinpath (IMAGES_ROOT [cps ''srv'']) [0x61, 0x5C, 0x62, 0x2E, 0x6A, 0x70, 0x67]) =
     [cps ''srv'', cps ''images'', [0x61, 0x5C, 0x62, 0x2E, 0x6A, 0x70, 0x67]] \<and>
   lookup media_tree [cps ''srv'', cps ''images'', [0x61, 0x5C, 0x62, 0x2E, 0x6A, 0x70, 0x67]] =
     Some (Dir []) \<and>
   media media_tree [cps ''srv''] [0x61, 0x5C, 0x62, 0x2E, 0x6A, 0x70, 0x67] =
     Inr (SentFile [cps ''srv'', cps ''images'', cps ''a'', cps ''b.jpg''])"
  by code_simp

end
